theory Spec2Isabelle
  imports Complex_Main "HOL-Library.Multiset" "HOL-Library.AList"
begin

section \<open>Strings and character classes\<close>

text \<open>
  A JavaScript string is modelled as a HOL \<open>string\<close>: the list of the bytes of its UTF-8
  form. On ASCII text a byte is a code unit and \<open>take\<close> counts code units. The word
  class \<^verbatim>\<open>\w\<close> and the letters an expression with the flag \<^verbatim>\<open>i\<close> (and without
  \<^verbatim>\<open>u\<close>) takes for a keyword are ASCII in the runtime too. Two operations are
  modelled on ASCII only, and the runtime does more outside it: \<^verbatim>\<open>\s\<close> also matches
  U+00A0, U+1680, U+2000 to U+200A, U+2028, U+2029, U+202F, U+205F, U+3000 and U+FEFF,
  and \<^verbatim>\<open>toLowerCase\<close> also maps letters beyond ASCII (the Kelvin sign U+212A to
  \<^verbatim>\<open>k\<close>). A property that depends on either is stated for ASCII messages
  (\<open>ascii_text\<close>), where the model is the code.
\<close>

definition NL :: string where
  "NL = [CHR 0x0A]"

text \<open>The class \<^verbatim>\<open>\w\<close> of a regular expression: \<^verbatim>\<open>[A-Za-z0-9_]\<close>.\<close>

definition is_word_char :: "char \<Rightarrow> bool" where
  "is_word_char c =
     (let n = (of_char c :: nat)
      in (48 \<le> n \<and> n \<le> 57) \<or> (65 \<le> n \<and> n \<le> 90) \<or> n = 95 \<or> (97 \<le> n \<and> n \<le> 122))"

text \<open>The class \<^verbatim>\<open>\s\<close> on ASCII text: tab, line feed, vertical tab, form feed,
  carriage return, space.\<close>

definition is_space_char :: "char \<Rightarrow> bool" where
  "is_space_char c = (let n = (of_char c :: nat) in (9 \<le> n \<and> n \<le> 13) \<or> n = 32)"

text \<open>\<^verbatim>\<open>toLowerCase\<close> and \<^verbatim>\<open>toUpperCase\<close> on ASCII text.\<close>

definition toLowerCase_char :: "char \<Rightarrow> char" where
  "toLowerCase_char c =
     (case map_of (zip ''ABCDEFGHIJKLMNOPQRSTUVWXYZ'' ''abcdefghijklmnopqrstuvwxyz'') c of
        Some l \<Rightarrow> l
      | None \<Rightarrow> c)"

definition toUpperCase_char :: "char \<Rightarrow> char" where
  "toUpperCase_char c =
     (case map_of (zip ''abcdefghijklmnopqrstuvwxyz'' ''ABCDEFGHIJKLMNOPQRSTUVWXYZ'') c of
        Some u \<Rightarrow> u
      | None \<Rightarrow> c)"

definition toLowerCase :: "string \<Rightarrow> string" where
  "toLowerCase s = map toLowerCase_char s"

text \<open>\<^verbatim>\<open>s.startsWith(p)\<close>.\<close>

definition startsWith :: "string \<Rightarrow> string \<Rightarrow> bool" where
  "startsWith s p = (take (length p) s = p)"

section \<open>Commits as the forge delivers them\<close>

text \<open>
  The shape read by the renderers: \<^verbatim>\<open>commit.sha\<close>, \<^verbatim>\<open>commit.commit.message\<close>,
  \<^verbatim>\<open>commit.commit.author.name\<close> and \<^verbatim>\<open>commit.commit.author.date\<close>.
\<close>

record author =
  name :: string
  date :: string

record commit_info =
  message :: string
  author :: author

record github_commit =
  sha :: string
  commit :: commit_info

text \<open>An exception of the runtime, with its message.\<close>

datatype js_error = TypeError string | RangeError string | Error string

fun error_message :: "js_error \<Rightarrow> string" where
  "error_message (TypeError m) = m"
| "error_message (RangeError m) = m"
| "error_message (Error m) = m"

section \<open>The classifier: \<^verbatim>\<open>groupCommitsByType\<close>\<close>

text \<open>
  \<^verbatim>\<open>message.match(/^(\w+)(\([^)]+\))?:/)\<close>, returning capture group 1. The expression is
  anchored at the start of the string. \<^verbatim>\<open>\w+\<close> is greedy, and giving back a word character
  cannot help, since the next item must be \<^verbatim>\<open>(\<close> or \<^verbatim>\<open>:\<close>; likewise
  \<^verbatim>\<open>[^)]+\<close> runs to the first \<^verbatim>\<open>)\<close>. So the matcher takes the longest run of
  each class. \<open>regex_type_matches\<close> below states the expression's language directly, and
  \<open>match_type_iff\<close> proves the matcher decides it.
\<close>

definition match_type :: "string \<Rightarrow> string option" where
  "match_type msg =
     (let w = takeWhile is_word_char msg;
          r = dropWhile is_word_char msg
      in if w = [] then None
         else (case r of
                 [] \<Rightarrow> None
               | c # r1 \<Rightarrow>
                   if c = CHR '':'' then Some w
                   else if c = CHR ''('' then
                     (let s = takeWhile (\<lambda>x. x \<noteq> CHR '')'') r1;
                          r2 = dropWhile (\<lambda>x. x \<noteq> CHR '')'') r1
                      in if s \<noteq> [] \<and> take 2 r2 = ''):''
                         then Some w else None)
                   else None))"

text \<open>The language of the expression, as a prefix of the message with its parts named.\<close>

definition regex_type_matches :: "string \<Rightarrow> string \<Rightarrow> bool" where
  "regex_type_matches msg w =
     (w \<noteq> [] \<and> list_all is_word_char w \<and>
      ((\<exists>rest. msg = w @ '':'' @ rest) \<or>
       (\<exists>s rest. s \<noteq> [] \<and> CHR '')'' \<notin> set s \<and> msg = w @ ''('' @ s @ ''):'' @ rest)))"

text \<open>
  The type of one commit, as the loop body computes it: \<^verbatim>\<open>'other'\<close> unless the
  expression matches, then capture group 1 as it stands.
\<close>

definition commit_type :: "string \<Rightarrow> string" where
  "commit_type msg = (case match_type msg of None \<Rightarrow> ''other'' | Some w \<Rightarrow> w)"

text \<open>
  \<^verbatim>\<open>types\<close> starts as the object literal \<^verbatim>\<open>{}\<close>: its own properties are kept in
  creation order, and a read of a name that is not an own property goes to
  \<^verbatim>\<open>Object.prototype\<close>, whose property names are listed here. Each of them holds a
  function (or, for \<^verbatim>\<open>__proto__\<close>, the prototype object): a truthy value without a
  \<^verbatim>\<open>push\<close> method.
\<close>

definition object_prototype_keys :: "string list" where
  "object_prototype_keys =
     [''constructor'', ''__defineGetter__'', ''__defineSetter__'', ''hasOwnProperty'',
      ''__lookupGetter__'', ''__lookupSetter__'', ''isPrototypeOf'', ''propertyIsEnumerable'',
      ''toString'', ''valueOf'', ''__proto__'', ''toLocaleString'']"

type_synonym commits_by_type = "(string \<times> github_commit list) list"

text \<open>
  One round of the \<^verbatim>\<open>forEach\<close>: \<^verbatim>\<open>if (!types[type]) types[type] = []\<close> and then
  \<^verbatim>\<open>types[type].push(commit)\<close>. An array is truthy even when empty, so an own
  property is never replaced. For an inherited name the test finds a truthy value,
  nothing is created, and the call of the missing \<^verbatim>\<open>push\<close> throws.
\<close>

definition group_commit :: "commits_by_type \<Rightarrow> github_commit \<Rightarrow> js_error + commits_by_type" where
  "group_commit types c =
     (let type = commit_type (message (commit c))
      in case map_of types type of
           Some cs \<Rightarrow> Inr (AList.update type (cs @ [c]) types)
         | None \<Rightarrow>
             if type \<in> set object_prototype_keys
             then Inl (TypeError ''types[type].push is not a function'')
             else Inr (types @ [(type, [c])]))"

fun group_commits :: "commits_by_type \<Rightarrow> github_commit list \<Rightarrow> js_error + commits_by_type" where
  "group_commits types [] = Inr types"
| "group_commits types (c # cs) =
     (case group_commit types c of
        Inl e \<Rightarrow> Inl e
      | Inr types' \<Rightarrow> group_commits types' cs)"

definition groupCommitsByType :: "github_commit list \<Rightarrow> js_error + commits_by_type" where
  "groupCommitsByType commits = group_commits [] commits"


section \<open>The internal layout: \<^verbatim>\<open>generateInternalChangelog\<close>\<close>

definition typeMap :: "(string \<times> string) list" where
  "typeMap =
     [(''feat'', ''Features''),
      (''fix'', ''Bug Fixes''),
      (''docs'', ''Documentation''),
      (''style'', ''Style Improvements''),
      (''refactor'', ''Code Refactoring''),
      (''perf'', ''Performance Improvements''),
      (''test'', ''Tests''),
      (''build'', ''Build System''),
      (''ci'', ''CI/CD''),
      (''chore'', ''Chores''),
      (''other'', ''Other Changes'')]"

text \<open>
  The text that string concatenation makes of a value inherited from
  \<^verbatim>\<open>Object.prototype\<close>: \<^verbatim>\<open>typeMap\<close> is an object literal too, so
  \<^verbatim>\<open>typeMap[type]\<close> finds such a value for an inherited name.
\<close>

definition inherited_text :: "string \<Rightarrow> string" where
  "inherited_text k =
     (if k = ''__proto__'' then ''[object Object]''
      else ''function '' @ (if k = ''constructor'' then ''Object'' else k) @ ''() { [native code] }'')"

text \<open>\<^verbatim>\<open>typeMap[type] || type.charAt(0).toUpperCase() + type.slice(1)\<close>.\<close>

definition formatCommitType :: "string \<Rightarrow> string" where
  "formatCommitType type =
     (case map_of typeMap type of
        Some heading \<Rightarrow> heading
      | None \<Rightarrow>
          if type \<in> set object_prototype_keys then inherited_text type
          else (case type of [] \<Rightarrow> [] | c # cs \<Rightarrow> toUpperCase_char c # cs))"

text \<open>
  \<^verbatim>\<open>Object.keys\<close>: the own property names that are array indices (canonical decimal
  numerals below \<open>2\<^sup>3\<^sup>2 - 1\<close>) in ascending numeric order, then the other names in
  creation order.
\<close>

definition is_digit :: "char \<Rightarrow> bool" where
  "is_digit c = (let n = (of_char c :: nat) in 48 \<le> n \<and> n \<le> 57)"

definition index_value :: "string \<Rightarrow> nat" where
  "index_value k = foldl (\<lambda>n c. 10 * n + (of_char c - 48)) 0 k"

definition is_array_index :: "string \<Rightarrow> bool" where
  "is_array_index k =
     (k \<noteq> [] \<and> list_all is_digit k \<and> (k = ''0'' \<or> take 1 k \<noteq> ''0'') \<and>
      index_value k < 2 ^ 32 - 1)"

definition object_keys :: "(string \<times> 'v) list \<Rightarrow> string list" where
  "object_keys obj =
     sort_key index_value (filter is_array_index (map fst obj)) @
     filter (\<lambda>k. \<not> is_array_index k) (map fst obj)"

text \<open>
  The list item of one commit. The date shown is
  \<^verbatim>\<open>new Date(commit.commit.author.date).toISOString().split('T')[0]\<close>, which the
  runtime computes: it is the parameter \<open>isoDate\<close> of the renderer, \<open>None\<close> where the
  text is no valid date and \<^verbatim>\<open>toISOString\<close> throws.
\<close>

definition commit_entry :: "string \<Rightarrow> github_commit \<Rightarrow> string" where
  "commit_entry d c =
     ''- **'' @ take 7 (sha c) @ ''** '' @ message (commit c) @
     '' ('' @ author.name (author (commit c)) @ '', '' @ d @ '')'' @ NL"

fun render_commits ::
  "(string \<Rightarrow> string option) \<Rightarrow> string \<Rightarrow> github_commit list \<Rightarrow> js_error + string" where
  "render_commits isoDate changelog [] = Inr changelog"
| "render_commits isoDate changelog (c # cs) =
     (case isoDate (date (author (commit c))) of
        None \<Rightarrow> Inl (RangeError ''Invalid time value'')
      | Some d \<Rightarrow> render_commits isoDate (changelog @ commit_entry d c) cs)"

fun render_types ::
  "(string \<Rightarrow> string option) \<Rightarrow> commits_by_type \<Rightarrow> string \<Rightarrow> string list \<Rightarrow> js_error + string" where
  "render_types isoDate commitsByType changelog [] = Inr changelog"
| "render_types isoDate commitsByType changelog (type # types) =
     (case map_of commitsByType type of
        None \<Rightarrow> Inl (TypeError (''Cannot read properties of undefined (reading '' @ [CHR 0x27] @
                         ''forEach'' @ [CHR 0x27] @ '')''))
      | Some cs \<Rightarrow>
          (case render_commits isoDate
                  (changelog @ ''## '' @ formatCommitType type @ NL @ NL) cs of
             Inl e \<Rightarrow> Inl e
           | Inr changelog' \<Rightarrow> render_types isoDate commitsByType (changelog' @ NL) types))"

definition generateInternalChangelog ::
  "(string \<Rightarrow> string option) \<Rightarrow> string \<Rightarrow> github_commit list \<Rightarrow> string \<Rightarrow> js_error + string" where
  "generateInternalChangelog isoDate repoName commits dateRange =
     (let changelog = ''# Changelog: '' @ repoName @ NL @ NL;
          changelog = changelog @ ''**Date Range:** '' @ dateRange @ NL @ NL
      in case groupCommitsByType commits of
           Inl e \<Rightarrow> Inl e
         | Inr commitsByType \<Rightarrow>
             render_types isoDate commitsByType changelog (object_keys commitsByType))"

section \<open>The external layout: \<^verbatim>\<open>generateExternalChangelog\<close>\<close>

text \<open>
  \<^verbatim>\<open>message.replace(/^kw(\([^)]+\))?:\s*/i, '')\<close> for a lower-case keyword \<open>kw\<close>.
  \<open>prefix_match\<close> is the match of the expression, given by what follows it; the
  expression is anchored at the start, so the replacement leaves exactly that, and a
  message the expression does not match is returned as it is.
\<close>

definition prefix_match :: "string \<Rightarrow> string \<Rightarrow> string option" where
  "prefix_match kw msg =
     (if toLowerCase (take (length kw) msg) \<noteq> kw then None
      else (case drop (length kw) msg of
              [] \<Rightarrow> None
            | c # r1 \<Rightarrow>
                if c = CHR '':'' then Some (dropWhile is_space_char r1)
                else if c = CHR ''('' then
                  (let s = takeWhile (\<lambda>x. x \<noteq> CHR '')'') r1;
                       r2 = dropWhile (\<lambda>x. x \<noteq> CHR '')'') r1
                   in if s \<noteq> [] \<and> take 2 r2 = ''):''
                      then Some (dropWhile is_space_char (drop 2 r2)) else None)
                else None))"

definition strip_prefix :: "string \<Rightarrow> string \<Rightarrow> string" where
  "strip_prefix kw msg = (case prefix_match kw msg of None \<Rightarrow> msg | Some rest \<Rightarrow> rest)"



text \<open>The test of the filters: \<^verbatim>\<open>commit.commit.message.toLowerCase().startsWith(kw)\<close>.\<close>

definition message_starts :: "string \<Rightarrow> github_commit \<Rightarrow> bool" where
  "message_starts kw c = startsWith (toLowerCase (message (commit c))) kw"

text \<open>The section headings, with the bytes the source file has before the words.\<close>

definition features_heading :: string where
  "features_heading =
     ''## '' @ [CHR 0xC3, CHR 0xA2, CHR 0xC5, CHR 0x93, CHR 0xC2, CHR 0xA8] @ '' New Features''"

definition breaking_heading :: string where
  "breaking_heading =
     ''## '' @ [CHR 0xC3, CHR 0xA2, CHR 0xC5, CHR 0xA1, CHR 0xC2, CHR 0xA0, CHR 0xC3, CHR 0xAF,
               CHR 0xC2, CHR 0xB8] @ '' Breaking Changes''"

definition fixes_heading :: string where
  "fixes_heading =
     ''## '' @ [CHR 0xC3, CHR 0xB0, CHR 0xC5, CHR 0xB8, CHR 0xE2, CHR 0x80, CHR 0xBA] @
     '' Bug Fixes''"

definition performance_heading :: string where
  "performance_heading =
     ''## '' @ [CHR 0xC3, CHR 0xA2, CHR 0xC5, CHR 0xA1, CHR 0xC2, CHR 0xA1] @
     '' Performance Improvements''"

text \<open>One of the four blocks \<^verbatim>\<open>if (bucket.length > 0) { ... }\<close>.\<close>

definition add_section :: "string \<Rightarrow> string \<Rightarrow> github_commit list \<Rightarrow> string \<Rightarrow> string" where
  "add_section heading kw bucket changelog =
     (if length bucket > 0
      then foldl (\<lambda>changelog c. changelog @ ''- '' @ strip_prefix kw (message (commit c)) @ NL)
                 (changelog @ heading @ NL @ NL) bucket @ NL
      else changelog)"

definition generateExternalChangelog :: "string \<Rightarrow> github_commit list \<Rightarrow> string \<Rightarrow> string" where
  "generateExternalChangelog repoName commits dateRange =
     (let changelog = ''# '' @ repoName @ '' - Changelog'' @ NL @ NL;
          changelog = changelog @ ''**'' @ dateRange @ ''**'' @ NL @ NL;
          userRelevantCommits =
            filter (\<lambda>c. message_starts ''feat'' c \<or> message_starts ''fix'' c \<or>
                        message_starts ''perf'' c \<or> message_starts ''breaking'' c) commits;
          features = filter (message_starts ''feat'') userRelevantCommits;
          fixes = filter (message_starts ''fix'') userRelevantCommits;
          performance = filter (message_starts ''perf'') userRelevantCommits;
          breaking = filter (message_starts ''breaking'') userRelevantCommits;
          changelog = add_section features_heading ''feat'' features changelog;
          changelog = add_section breaking_heading ''breaking'' breaking changelog;
          changelog = add_section fixes_heading ''fix'' fixes changelog;
          changelog = add_section performance_heading ''perf'' performance changelog
      in changelog)"

section \<open>The entry point: \<^verbatim>\<open>generateChangelog\<close>\<close>

record changelog_document =
  content :: string
  title :: string

text \<open>What the call of the summarizer does: throw, return \<^verbatim>\<open>null\<close>, or return a
  content and a title.\<close>

datatype ai_outcome = AiThrows js_error | AiNull | AiResult string string

text \<open>
  What the run takes from outside: the forge's answer to \<^verbatim>\<open>fetchCommits\<close>, the text of
  the date range (computed from the clock and \<^verbatim>\<open>days\<close>; \<^verbatim>\<open>toISOString\<close> throws on
  an invalid date), the summarizer, and the runtime's date conversion.
\<close>

record environment =
  fetchCommits :: "string \<Rightarrow> int \<Rightarrow> js_error + github_commit list"
  dateRangeOf :: "int \<Rightarrow> js_error + string"
  enhanceChangelog :: "github_commit list \<Rightarrow> string \<Rightarrow> string \<Rightarrow> string \<Rightarrow> ai_outcome"
  isoDateOf :: "string \<Rightarrow> string option"

text \<open>\<^verbatim>\<open>s.replace(pat, '')\<close> with a string pattern: the first occurrence is removed.\<close>

fun remove_first :: "string \<Rightarrow> string \<Rightarrow> string" where
  "remove_first pat [] = []"
| "remove_first pat (c # cs) =
     (if take (length pat) (c # cs) = pat then drop (length pat) (c # cs)
      else c # remove_first pat cs)"

text \<open>\<^verbatim>\<open>repoUrl.split('/').pop().replace('.git', '')\<close>.\<close>

definition repo_name_of :: "string \<Rightarrow> string" where
  "repo_name_of repoUrl =
     remove_first ''.git'' (rev (takeWhile (\<lambda>c. c \<noteq> CHR ''/'') (rev repoUrl)))"

definition error_document :: "js_error \<Rightarrow> changelog_document" where
  "error_document e =
     \<lparr>content = ''Error generating changelog: '' @ error_message e, title = ''Error''\<rparr>"

definition generateChangelog ::
  "environment \<Rightarrow> string \<Rightarrow> int \<Rightarrow> string \<Rightarrow> bool \<Rightarrow> changelog_document" where
  "generateChangelog env repoUrl days format useAI =
     (case fetchCommits env repoUrl days of
        Inl e \<Rightarrow> error_document e
      | Inr commits \<Rightarrow>
          if length commits = 0
          then \<lparr>content = ''No commits found for the specified period.'', title = ''No Changes''\<rparr>
          else
            (let repoName = repo_name_of repoUrl
             in case dateRangeOf env days of
                  Inl e \<Rightarrow> error_document e
                | Inr dateRange \<Rightarrow>
                    (case (if useAI then enhanceChangelog env commits format repoName dateRange
                           else AiNull) of
                       AiResult c t \<Rightarrow>
                         \<lparr>content = c, title = (if t = [] then repoName @ '' Changelog'' else t)\<rparr>
                     | _ \<Rightarrow>
                         (case (if format = ''external''
                                then Inr (generateExternalChangelog repoName commits dateRange)
                                else generateInternalChangelog (isoDateOf env) repoName commits
                                       dateRange) of
                            Inl e \<Rightarrow> error_document e
                          | Inr changelog \<Rightarrow>
                              \<lparr>content = changelog, title = repoName @ '' Changelog''\<rparr>))))"

section \<open>The backing file and \<^verbatim>\<open>readDB\<close>\<close>

text \<open>
  A value as \<^verbatim>\<open>JSON.parse\<close> builds it. An array carries, besides its elements, the
  named properties assigned to it later (none after parsing). An object is the list of
  its own properties in creation order. A number is kept as an integer: only whether it
  is zero is ever looked at.
\<close>

datatype jsval =
    JNull
  | JBool bool
  | JNum int
  | JStr string
  | JArr "jsval list" "(string \<times> jsval) list"
  | JObj "(string \<times> jsval) list"

text \<open>
  The backing file as the read finds it: absent, present with \<^verbatim>\<open>readFileSync\<close> or
  \<^verbatim>\<open>JSON.parse\<close> throwing, or present with a text that parses to a value.
\<close>

datatype backing_file = Missing | Throws js_error | Parsed jsval

text \<open>
  \<^verbatim>\<open>v.repositories\<close> and \<^verbatim>\<open>v.history\<close>: neither name is an index, \<^verbatim>\<open>length\<close>, or
  a property of a prototype, so the read finds an own named property or
  \<^verbatim>\<open>undefined\<close> (\<open>None\<close>); on \<^verbatim>\<open>null\<close> it throws.
\<close>

fun get_field :: "jsval \<Rightarrow> string \<Rightarrow> js_error + jsval option" where
  "get_field JNull k = Inl (TypeError (''Cannot read properties of null (reading '' @ [CHR 0x27] @ k @ [CHR 0x27] @ '')''))"
| "get_field (JObj ps) k = Inr (map_of ps k)"
| "get_field (JArr xs ps) k = Inr (map_of ps k)"
| "get_field v k = Inr None"

text \<open>
  \<^verbatim>\<open>v.k = x\<close> in a module that is not in strict mode: on an object or an array the
  property is set; on a number, a string or a boolean the assignment does nothing.
\<close>

fun set_field :: "jsval \<Rightarrow> string \<Rightarrow> jsval \<Rightarrow> js_error + jsval" where
  "set_field JNull k x = Inl (TypeError (''Cannot set properties of null (setting '' @ [CHR 0x27] @ k @ [CHR 0x27] @ '')''))"
| "set_field (JObj ps) k x = Inr (JObj (AList.update k x ps))"
| "set_field (JArr xs ps) k x = Inr (JArr xs (AList.update k x ps))"
| "set_field v k x = Inr v"

fun truthy :: "jsval option \<Rightarrow> bool" where
  "truthy None = False"
| "truthy (Some JNull) = False"
| "truthy (Some (JBool b)) = b"
| "truthy (Some (JNum n)) = (n \<noteq> 0)"
| "truthy (Some (JStr s)) = (s \<noteq> [])"
| "truthy (Some (JArr xs ps)) = True"
| "truthy (Some (JObj ps)) = True"

fun isArray :: "jsval option \<Rightarrow> bool" where
  "isArray (Some (JArr xs ps)) = True"
| "isArray v = False"

definition empty_store :: jsval where
  "empty_store = JObj [(''repositories'', JArr [] []), (''history'', JArr [] [])]"

text \<open>\<^verbatim>\<open>if (!v.k || !Array.isArray(v.k)) v.k = []\<close>.\<close>

definition ensure_array :: "string \<Rightarrow> jsval \<Rightarrow> js_error + jsval" where
  "ensure_array k v =
     (case get_field v k of
        Inl e \<Rightarrow> Inl e
      | Inr x \<Rightarrow> if \<not> truthy x \<or> \<not> isArray x then set_field v k (JArr [] []) else Inr v)"

text \<open>The body of the \<^verbatim>\<open>try\<close> block of \<^verbatim>\<open>readDB\<close>.\<close>

fun readDB_try :: "backing_file \<Rightarrow> js_error + jsval" where
  "readDB_try Missing = Inr empty_store"
| "readDB_try (Throws e) = Inl e"
| "readDB_try (Parsed parsedData) =
     (case ensure_array ''repositories'' parsedData of
        Inl e \<Rightarrow> Inl e
      | Inr parsedData' \<Rightarrow> ensure_array ''history'' parsedData')"

text \<open>\<^verbatim>\<open>readDB\<close>: the \<^verbatim>\<open>catch\<close> block logs and returns the empty structure.\<close>

definition readDB :: "backing_file \<Rightarrow> jsval" where
  "readDB file = (case readDB_try file of Inl e \<Rightarrow> empty_store | Inr v \<Rightarrow> v)"

section \<open>The store and its operations\<close>

text \<open>
  The operations below work on the store that \<^verbatim>\<open>readDB\<close> hands them and
  \<^verbatim>\<open>writeDB\<close> takes back, for a backing file of the documented shape, read and written
  without failure. A time is the number of milliseconds since the epoch: the file keeps
  it as the text \<^verbatim>\<open>toISOString\<close> makes, from which \<^verbatim>\<open>new Date\<close> gives the same
  time back. Each reading of the clock is an argument of the operation.
\<close>

record repository =
  url :: string
  name :: string
  lastUsed :: int

record history_entry =
  repoUrl :: string
  generatedAt :: int
  startDate :: string
  endDate :: string
  lastCommitHash :: "string option"

record db =
  repositories :: "repository list"
  history :: "history_entry list"

definition empty_db :: db where
  "empty_db = \<lparr>repositories = [], history = []\<rparr>"

text \<open>\<^verbatim>\<open>xs.findIndex(p)\<close>: the index of the first element that satisfies \<open>p\<close>, or -1.\<close>

fun findIndex :: "('a \<Rightarrow> bool) \<Rightarrow> 'a list \<Rightarrow> int" where
  "findIndex p [] = - 1"
| "findIndex p (x # xs) =
     (if p x then 0 else (let i = findIndex p xs in if i = - 1 then - 1 else i + 1))"

text \<open>
  \<^verbatim>\<open>xs.sort((a, b) => new Date(b.t) - new Date(a.t))\<close>: the sort of the runtime is
  stable, and so is \<open>sort_key\<close>; with the key negated the latest time comes first.
\<close>

definition sort_newest_first :: "('a \<Rightarrow> int) \<Rightarrow> 'a list \<Rightarrow> 'a list" where
  "sort_newest_first t xs = sort_key (\<lambda>x. - t x) xs"

definition saveRepository :: "string \<Rightarrow> string \<Rightarrow> int \<Rightarrow> db \<Rightarrow> db" where
  "saveRepository repo_url repo_name now d =
     (let repos = repositories d;
          existingRepoIndex = findIndex (\<lambda>repo. repository.url repo = repo_url) repos;
          repos' =
            (if existingRepoIndex \<noteq> - 1
             then repos[nat existingRepoIndex :=
                          (repos ! nat existingRepoIndex)\<lparr>lastUsed := now\<rparr>]
             else repos @ [\<lparr>url = repo_url, repository.name = repo_name, lastUsed = now\<rparr>])
      in d\<lparr>repositories := sort_newest_first lastUsed repos'\<rparr>)"

definition getRecentRepositories :: "nat \<Rightarrow> db \<Rightarrow> repository list" where
  "getRecentRepositories limit d = take limit (sort_newest_first lastUsed (repositories d))"

text \<open>
  \<^verbatim>\<open>saveChangelogGeneration\<close> reads the clock twice: inside \<^verbatim>\<open>saveRepository\<close>
  (\<open>now1\<close>) and for \<^verbatim>\<open>generatedAt\<close> (\<open>now2\<close>). \<^verbatim>\<open>lastCommitHash || null\<close> turns
  the empty string into \<^verbatim>\<open>null\<close>.
\<close>

definition saveChangelogGeneration ::
  "string \<Rightarrow> string \<Rightarrow> string \<Rightarrow> string \<Rightarrow> string option \<Rightarrow> int \<Rightarrow> int \<Rightarrow> db \<Rightarrow> db" where
  "saveChangelogGeneration repo_url repo_name start_date end_date last_hash now1 now2 d =
     (let d1 = saveRepository repo_url repo_name now1 d;
          entry = \<lparr>repoUrl = repo_url, generatedAt = now2, startDate = start_date,
                   endDate = end_date,
                   lastCommitHash = (if last_hash = Some [] then None else last_hash)\<rparr>
      in d1\<lparr>history := sort_newest_first generatedAt (history d1 @ [entry])\<rparr>)"

record last_changelog =
  days :: int
  lastDate :: string
  lastCommitHash :: "string option"

text \<open>\<^verbatim>\<open>Math.ceil((now - lastDate) / (1000 * 60 * 60 * 24))\<close>.\<close>

definition days_since :: "int \<Rightarrow> int \<Rightarrow> int" where
  "days_since now t0 = \<lceil>(of_int (now - t0) :: rat) / (1000 * 60 * 60 * 24)\<rceil>"

definition getDaysSinceLastChangelog :: "int \<Rightarrow> db \<Rightarrow> string \<Rightarrow> last_changelog option" where
  "getDaysSinceLastChangelog now d repo_url =
     (case sort_newest_first generatedAt
             (filter (\<lambda>entry. repoUrl entry = repo_url) (history d)) of
        [] \<Rightarrow> None
      | lastChangelog # _ \<Rightarrow>
          Some \<lparr>days = days_since now (generatedAt lastChangelog),
                lastDate = endDate lastChangelog,
                last_changelog.lastCommitHash = history_entry.lastCommitHash lastChangelog\<rparr>)"

definition getChangelogHistory :: "db \<Rightarrow> string \<Rightarrow> nat \<Rightarrow> history_entry list" where
  "getChangelogHistory d repo_url limit =
     take limit (sort_newest_first generatedAt
                   (filter (\<lambda>entry. repoUrl entry = repo_url) (history d)))"

section \<open>\<^verbatim>\<open>getNewCommitsSinceLastChangelog\<close>\<close>

record new_commits =
  newCommits :: "int option"
  lastCommitHash :: "string option"
  message :: string

text \<open>The decimal numeral of a number, as a template string writes it.\<close>

fun decimal :: "nat \<Rightarrow> string" where
  "decimal n =
     (if n < 10 then [''0123456789'' ! n]
      else decimal (n div 10) @ [''0123456789'' ! (n mod 10)])"

declare decimal.simps [simp del]

definition no_previous_hash :: new_commits where
  "no_previous_hash =
     \<lparr>newCommits = None, new_commits.lastCommitHash = None,
      new_commits.message = ''No previous changelog commit hash found''\<rparr>"

text \<open>
  The forge's answer to the unfiltered request for the commit list is the argument
  \<open>response\<close>: an error, or the page of commits, newest first.
  \<^verbatim>\<open>!lastChangelog.lastCommitHash\<close> holds for \<^verbatim>\<open>null\<close> and for the empty string.
\<close>

definition getNewCommitsSinceLastChangelog ::
  "int \<Rightarrow> db \<Rightarrow> string \<Rightarrow> js_error + github_commit list \<Rightarrow> new_commits" where
  "getNewCommitsSinceLastChangelog now d repo_url response =
     (case getDaysSinceLastChangelog now d repo_url of
        None \<Rightarrow> no_previous_hash
      | Some lastChangelog \<Rightarrow>
          (case last_changelog.lastCommitHash lastChangelog of
             None \<Rightarrow> no_previous_hash
           | Some h \<Rightarrow>
               if h = [] then no_previous_hash
               else
                 (case response of
                    Inl e \<Rightarrow>
                      \<lparr>newCommits = None, new_commits.lastCommitHash = None,
                       new_commits.message = ''Error: '' @ error_message e\<rparr>
                  | Inr commits \<Rightarrow>
                      if length commits = 0
                      then \<lparr>newCommits = Some 0, new_commits.lastCommitHash = Some h,
                            new_commits.message = ''No commits found''\<rparr>
                      else
                        (let lastCommitIndex = findIndex (\<lambda>c. startsWith (sha c) h) commits
                         in if lastCommitIndex = - 1
                            then \<lparr>newCommits = Some (int (length commits)),
                                  new_commits.lastCommitHash = Some (sha (hd commits)),
                                  new_commits.message =
                                    ''Previous commit not found in recent history''\<rparr>
                            else \<lparr>newCommits = Some lastCommitIndex,
                                  new_commits.lastCommitHash = Some (sha (hd commits)),
                                  new_commits.message =
                                    ''Found '' @ decimal (nat lastCommitIndex) @
                                    '' new commits since last changelog''\<rparr>))))"

section \<open>Notions used to state the properties\<close>

text \<open>The bucket of a keyword, and the text of its section: nothing for an empty bucket.\<close>

definition bucket :: "string \<Rightarrow> github_commit list \<Rightarrow> github_commit list" where
  "bucket kw commits = filter (message_starts kw) commits"

definition section_text :: "string \<Rightarrow> string \<Rightarrow> github_commit list \<Rightarrow> string" where
  "section_text heading kw b =
     (if b = [] then []
      else heading @ NL @ NL @
           concat (map (\<lambda>c. ''- '' @ strip_prefix kw (commit_info.message (commit c)) @ NL) b) @ NL)"




text \<open>\<^verbatim>\<open>s.includes(p)\<close>: \<open>p\<close> occurs in \<open>s\<close>.\<close>

fun js_includes :: "string \<Rightarrow> string \<Rightarrow> bool" where
  "js_includes [] p = (p = [])"
| "js_includes (c # cs) p = (startsWith (c # cs) p \<or> js_includes cs p)"

text \<open>
  A call of the store: \<^verbatim>\<open>saveRepository(url, name)\<close> at a time, or
  \<^verbatim>\<open>saveChangelogGeneration(repoUrl, repoName, startDate, endDate, lastCommitHash)\<close>
  at its two times. A run applies a sequence of calls to the empty store.
\<close>

datatype store_call =
    SaveRepository string string int
  | SaveChangelogGeneration string string string string "string option" int int

fun call_url :: "store_call \<Rightarrow> string" where
  "call_url (SaveRepository u n t) = u"
| "call_url (SaveChangelogGeneration u n sd ed h t1 t2) = u"

fun call_time :: "store_call \<Rightarrow> int" where
  "call_time (SaveRepository u n t) = t"
| "call_time (SaveChangelogGeneration u n sd ed h t1 t2) = t1"

fun apply_call :: "db \<Rightarrow> store_call \<Rightarrow> db" where
  "apply_call d (SaveRepository u n t) = saveRepository u n t d"
| "apply_call d (SaveChangelogGeneration u n sd ed h t1 t2) =
     saveChangelogGeneration u n sd ed h t1 t2 d"

definition run_calls :: "store_call list \<Rightarrow> db" where
  "run_calls calls = foldl apply_call empty_db calls"

text \<open>The time of the most recent call for a URL, if there was one.\<close>

definition last_call_time :: "string \<Rightarrow> store_call list \<Rightarrow> int option" where
  "last_call_time u calls =
     (let cs = filter (\<lambda>c. call_url c = u) calls
      in if cs = [] then None else Some (call_time (last cs)))"

text \<open>A list is sorted by a time, descending.\<close>

definition newest_first :: "('a \<Rightarrow> int) \<Rightarrow> 'a list \<Rightarrow> bool" where
  "newest_first t xs = sorted_wrt (\<lambda>a b. t a \<ge> t b) xs"

text \<open>
  The hash the store has on record for a URL: that of the entry
  \<^verbatim>\<open>getDaysSinceLastChangelog\<close> picks, when there is one and it is neither
  \<^verbatim>\<open>null\<close> nor empty.
\<close>

definition recorded_hash :: "int \<Rightarrow> db \<Rightarrow> string \<Rightarrow> string option" where
  "recorded_hash now d repo_url =
     (case getDaysSinceLastChangelog now d repo_url of
        None \<Rightarrow> None
      | Some lastChangelog \<Rightarrow>
          (case last_changelog.lastCommitHash lastChangelog of
             None \<Rightarrow> None
           | Some h \<Rightarrow> if h = [] then None else Some h))"

text \<open>
  The list item of a commit with the date the runtime gives, the section of one type with
  its commits, and a table in which every name occurs once, with a non-empty list of
  commits of that type.
\<close>

definition entry_of :: "(string \<Rightarrow> string option) \<Rightarrow> github_commit \<Rightarrow> string" where
  "entry_of isoDate c = commit_entry (the (isoDate (date (author (commit c))))) c"

definition type_section :: "(string \<Rightarrow> string option) \<Rightarrow> string \<times> github_commit list \<Rightarrow> string" where
  "type_section isoDate g =
     ''## '' @ formatCommitType (fst g) @ NL @ NL @ concat (map (entry_of isoDate) (snd g)) @ NL"

definition well_grouped :: "commits_by_type \<Rightarrow> bool" where
  "well_grouped g =
     (distinct (map fst g) \<and>
      list_all (\<lambda>p. snd p \<noteq> [] \<and>
                     list_all (\<lambda>c. commit_type (commit_info.message (commit c)) = fst p) (snd p)) g)"

text \<open>Both top-level fields of a value read from the store are arrays.\<close>

definition both_arrays :: "jsval \<Rightarrow> bool" where
  "both_arrays v =
     (case (get_field v ''repositories'', get_field v ''history'') of
        (Inr r, Inr h) \<Rightarrow> isArray r \<and> isArray h
      | _ \<Rightarrow> False)"

section \<open>Example data\<close>

definition commit_of :: "string \<Rightarrow> string \<Rightarrow> string \<Rightarrow> string \<Rightarrow> github_commit" where
  "commit_of h m a d =
     \<lparr>sha = h, commit = \<lparr>commit_info.message = m, author = \<lparr>author.name = a, date = d\<rparr>\<rparr>\<rparr>"

definition example_calls :: "store_call list" where
  "example_calls =
     [SaveRepository ''a'' ''A'' 10,
      SaveRepository ''b'' ''B'' 20,
      SaveChangelogGeneration ''a'' ''A2'' ''2024-01-01'' ''2024-01-08'' (Some ''abc1234'') 30 31]"

definition example_db :: db where
  "example_db =
     \<lparr>repositories =
        [\<lparr>url = ''b'', repository.name = ''B'', lastUsed = 20\<rparr>,
         \<lparr>url = ''a'', repository.name = ''A'', lastUsed = 10\<rparr>],
      history =
        [\<lparr>repoUrl = ''a'', generatedAt = 5000, startDate = ''2024-01-01'',
          endDate = ''2024-01-08'', history_entry.lastCommitHash = Some ''abc1234''\<rparr>,
         \<lparr>repoUrl = ''a'', generatedAt = 1000, startDate = ''2023-12-01'',
          endDate = ''2023-12-08'', history_entry.lastCommitHash = None\<rparr>,
         \<lparr>repoUrl = ''b'', generatedAt = 500, startDate = ''2023-11-01'',
          endDate = ''2023-11-08'', history_entry.lastCommitHash = None\<rparr>]\<rparr>"

text \<open>
  Commits for the examples: the two of the specification's scenario, one the external
  layout drops, one whose message quotes the hash of another, and one whose type is the
  name of a property every object inherits.
\<close>

definition login_commit :: github_commit where
  "login_commit = commit_of ''abc1234def'' ''feat: add login'' ''A'' ''2024-01-02T10:00:00Z''"

definition crash_commit :: github_commit where
  "crash_commit = commit_of ''def5678abc'' ''fix: crash on start'' ''B'' ''2024-01-03T10:00:00Z''"

definition docs_commit :: github_commit where
  "docs_commit = commit_of ''0123456789'' ''docs: describe the flags'' ''C'' ''2024-01-04T10:00:00Z''"

definition revert_commit :: github_commit where
  "revert_commit = commit_of ''9999999aaa'' ''fix: revert abc1234'' ''B'' ''2024-01-05T10:00:00Z''"

definition ctor_commit :: github_commit where
  "ctor_commit = commit_of ''abc1234def'' ''constructor: set the defaults'' ''A'' ''2024-01-02T10:00:00Z''"

section \<open>Properties of the classifier\<close>

lemma match_type_colon:
  assumes "w \<noteq> []" and "list_all is_word_char w"
  shows "match_type (w @ '':'' @ rest) = Some w"
proof -
  have nw: "\<not> is_word_char (CHR '':'')" by (simp add: is_word_char_def)
  have tw: "takeWhile is_word_char (w @ CHR '':'' # rest) = w"
    using assms(2) nw by (simp add: list_all_iff takeWhile_tail)
  have dw: "dropWhile is_word_char (w @ CHR '':'' # rest) = CHR '':'' # rest"
    using assms(2) nw by (simp add: list_all_iff dropWhile_append3)
  show ?thesis using assms(1) tw dw by (simp add: match_type_def)
qed

lemma match_type_scope:
  assumes "w \<noteq> []" and "list_all is_word_char w" and "s \<noteq> []" and "CHR '')'' \<notin> set s"
  shows "match_type (w @ ''('' @ s @ ''):'' @ rest) = Some w"
proof -
  let ?tail = "s @ CHR '')'' # CHR '':'' # rest"
  have nw: "\<not> is_word_char (CHR ''('')" by (simp add: is_word_char_def)
  have tw: "takeWhile is_word_char (w @ CHR ''('' # ?tail) = w"
    using assms(2) nw by (simp add: list_all_iff takeWhile_tail)
  have dw: "dropWhile is_word_char (w @ CHR ''('' # ?tail) = CHR ''('' # ?tail"
    using assms(2) nw by (simp add: list_all_iff dropWhile_append3)
  have ts: "takeWhile (\<lambda>x. x \<noteq> CHR '')'') ?tail = s"
    using assms(4) by (auto simp: takeWhile_tail)
  have ds: "dropWhile (\<lambda>x. x \<noteq> CHR '')'') ?tail = CHR '')'' # CHR '':'' # rest"
    using assms(4) by (auto simp: dropWhile_append3)
  show ?thesis using assms(1,3) tw dw ts ds by (simp add: match_type_def)
qed

lemma match_type_sound:
  assumes "match_type msg = Some w"
  shows "regex_type_matches msg w"
proof -
  let ?r = "dropWhile is_word_char msg"
  from assms have w: "w = takeWhile is_word_char msg" and ne: "w \<noteq> []"
    by (auto simp: match_type_def Let_def split: if_splits list.splits)
  have allw: "list_all is_word_char w"
    unfolding w list_all_iff by (auto dest: set_takeWhileD)
  have msg: "msg = w @ ?r" by (simp add: w)
  from assms obtain c r1 where r: "?r = c # r1"
    by (cases ?r) (auto simp: match_type_def Let_def split: if_splits)
  show ?thesis
  proof (cases "c = CHR '':''")
    case True
    with msg r have "msg = w @ '':'' @ r1" by simp
    then show ?thesis using ne allw unfolding regex_type_matches_def by blast
  next
    case False
    let ?s = "takeWhile (\<lambda>x. x \<noteq> CHR '')'') r1"
    let ?r2 = "dropWhile (\<lambda>x. x \<noteq> CHR '')'') r1"
    from assms r False have c: "c = CHR ''(''" and s: "?s \<noteq> []" and r2: "take 2 ?r2 = ''):''"
      by (auto simp: match_type_def Let_def w split: if_splits)
    have "?r2 = ''):'' @ drop 2 ?r2"
      using r2 by (metis append_take_drop_id)
    then have "r1 = ?s @ ''):'' @ drop 2 ?r2"
      by (metis takeWhile_dropWhile_id)
    with msg r c have "msg = w @ ''('' @ ?s @ ''):'' @ drop 2 ?r2" by simp
    moreover have "CHR '')'' \<notin> set ?s" by (auto dest: set_takeWhileD)
    ultimately show ?thesis using ne allw s unfolding regex_type_matches_def by blast
  qed
qed

lemma match_type_iff: "match_type msg = Some w \<longleftrightarrow> regex_type_matches msg w"
proof
  assume "match_type msg = Some w"
  then show "regex_type_matches msg w" by (rule match_type_sound)
next
  assume "regex_type_matches msg w"
  then show "match_type msg = Some w"
    unfolding regex_type_matches_def
    using match_type_colon match_type_scope by blast
qed

lemma update_existing_contents:
  "map_of g k = Some cs \<Longrightarrow>
   mset (concat (map snd (AList.update k (cs @ [c]) g))) = add_mset c (mset (concat (map snd g)))"
  by (induction g) (auto split: if_splits)

lemma update_existing_keys:
  "map_of g k = Some cs \<Longrightarrow> map fst (AList.update k v g) = map fst g"
  by (induction g) (auto split: if_splits)

lemma update_existing_all:
  "map_of g k = Some cs \<Longrightarrow> list_all P g \<Longrightarrow> P (k, v) \<Longrightarrow> list_all P (AList.update k v g)"
  by (induction g) (auto split: if_splits)

lemma map_of_well_grouped:
  assumes "well_grouped g" and "map_of g k = Some cs"
  shows "cs \<noteq> [] \<and> list_all (\<lambda>c. commit_type (commit_info.message (commit c)) = k) cs"
proof -
  from assms(2) have "(k, cs) \<in> set g" by (rule map_of_SomeD)
  with assms(1) show ?thesis by (auto simp: well_grouped_def list_all_iff)
qed

lemma group_commit_step:
  assumes "group_commit g c = Inr g'" and "well_grouped g"
  shows "well_grouped g' \<and> mset (concat (map snd g')) = add_mset c (mset (concat (map snd g)))"
proof (cases "map_of g (commit_type (commit_info.message (commit c)))")
  case None
  let ?t = "commit_type (commit_info.message (commit c))"
  from None assms(1) have g': "g' = g @ [(?t, [c])]"
    by (auto simp: group_commit_def Let_def split: if_splits)
  from None have "?t \<notin> fst ` set g" by (simp add: map_of_eq_None_iff)
  with assms(2) show ?thesis unfolding g' by (auto simp: well_grouped_def)
next
  case (Some cs)
  let ?t = "commit_type (commit_info.message (commit c))"
  from Some assms(1) have g': "g' = AList.update ?t (cs @ [c]) g"
    by (auto simp: group_commit_def Let_def)
  from map_of_well_grouped [OF assms(2) Some]
  have cs: "list_all (\<lambda>c. commit_type (commit_info.message (commit c)) = ?t) cs" by blast
  have "list_all (\<lambda>p. snd p \<noteq> [] \<and>
                     list_all (\<lambda>c. commit_type (commit_info.message (commit c)) = fst p) (snd p))
          (AList.update ?t (cs @ [c]) g)"
    using Some assms(2) cs by (intro update_existing_all) (auto simp: well_grouped_def)
  with assms(2) Some show ?thesis
    unfolding g' by (simp add: well_grouped_def update_existing_keys update_existing_contents)
qed

lemma group_commits_result:
  assumes "group_commits g cs = Inr g'" and "well_grouped g"
  shows "well_grouped g' \<and> mset (concat (map snd g')) = mset cs + mset (concat (map snd g))"
  using assms
proof (induction cs arbitrary: g)
  case Nil
  then show ?case by simp
next
  case (Cons c cs)
  from Cons.prems(1) obtain g1 where 1: "group_commit g c = Inr g1"
    and 2: "group_commits g1 cs = Inr g'"
    by (auto split: sum.splits)
  from group_commit_step [OF 1 Cons.prems(2)]
  have w: "well_grouped g1" and m: "mset (concat (map snd g1)) = add_mset c (mset (concat (map snd g)))"
    by blast+
  from Cons.IH [OF 2 w] m show ?case by simp
qed

lemma groupCommitsByType_result:
  assumes "groupCommitsByType commits = Inr g"
  shows "well_grouped g \<and> mset (concat (map snd g)) = mset commits"
proof -
  have "well_grouped []" by (simp add: well_grouped_def)
  with assms group_commits_result [of "[]" commits g] show ?thesis
    by (simp add: groupCommitsByType_def)
qed

lemma group_commit_succeeds:
  assumes "commit_type (commit_info.message (commit c)) \<notin> set object_prototype_keys"
  shows "\<exists>g'. group_commit g c = Inr g'"
  using assms by (auto simp: group_commit_def Let_def split: option.splits)

lemma group_commits_succeeds:
  assumes "\<forall>c\<in>set cs. commit_type (commit_info.message (commit c)) \<notin> set object_prototype_keys"
  shows "\<exists>g'. group_commits g cs = Inr g'"
  using assms
proof (induction cs arbitrary: g)
  case Nil
  then show ?case by simp
next
  case (Cons c cs)
  then obtain g1 where "group_commit g c = Inr g1"
    using group_commit_succeeds [of c g] by auto
  with Cons show ?case by simp
qed

text \<open>
  Claim C1, as the code has it: the type of a commit is capture group 1 of
  \<^verbatim>\<open>/^(\w+)(\([^)]+\))?:/\<close> on the message, exactly as written in the message (its case
  is kept), and \<^verbatim>\<open>other\<close> when the expression does not match; the table that
  \<^verbatim>\<open>groupCommitsByType\<close> returns holds every commit once, under its type.
\<close>

theorem commit_type_verbatim:
  "(regex_type_matches msg w \<longrightarrow> commit_type msg = w) \<and>
   ((\<forall>w. \<not> regex_type_matches msg w) \<longrightarrow> commit_type msg = ''other'') \<and>
   (groupCommitsByType commits = Inr g \<longrightarrow>
      well_grouped g \<and> mset (concat (map snd g)) = mset commits)"
proof (intro conjI impI)
  assume "regex_type_matches msg w"
  then have "match_type msg = Some w" by (simp add: match_type_iff)
  then show "commit_type msg = w" by (simp add: commit_type_def)
next
  assume "\<forall>w. \<not> regex_type_matches msg w"
  then have "match_type msg = None"
    by (cases "match_type msg") (auto simp: match_type_iff)
  then show "commit_type msg = ''other''" by (simp add: commit_type_def)
next
  assume "groupCommitsByType commits = Inr g"
  then show "well_grouped g" by (simp add: groupCommitsByType_result)
next
  assume "groupCommitsByType commits = Inr g"
  then show "mset (concat (map snd g)) = mset commits" by (simp add: groupCommitsByType_result)
qed

theorem commit_type_verbatim_witness:
  "regex_type_matches ''Feat(ui): x'' ''Feat'' \<and> commit_type ''Feat(ui): x'' = ''Feat'' \<and>
   (\<forall>w. \<not> regex_type_matches ''Merge branch main'' w) \<and>
   commit_type ''Merge branch main'' = ''other'' \<and>
   groupCommitsByType [login_commit, crash_commit] =
     Inr [(''feat'', [login_commit]), (''fix'', [crash_commit])] \<and>
   well_grouped [(''feat'', [login_commit]), (''fix'', [crash_commit])]"
proof -
  note t = commit_type_verbatim
  have "match_type ''Feat(ui): x'' = Some ''Feat''"
    by (simp add: match_type_def is_word_char_def)
  then have h1: "regex_type_matches ''Feat(ui): x'' ''Feat''"
    by (simp add: match_type_iff)
  have "match_type ''Merge branch main'' = None"
    by (simp add: match_type_def is_word_char_def)
  then have h2: "\<forall>w. \<not> regex_type_matches ''Merge branch main'' w"
    by (simp add: match_type_iff [symmetric])
  have h3: "groupCommitsByType [login_commit, crash_commit] =
      Inr [(''feat'', [login_commit]), (''fix'', [crash_commit])]"
    by (simp add: groupCommitsByType_def group_commit_def commit_type_def match_type_def
        is_word_char_def object_prototype_keys_def login_commit_def crash_commit_def
        commit_of_def)
  from h1 have c1: "commit_type ''Feat(ui): x'' = ''Feat''"
    using t [of "''Feat(ui): x''" "''Feat''"] by blast
  from h2 have c2: "commit_type ''Merge branch main'' = ''other''"
    using t [of "''Merge branch main''"] by blast
  from h3 have c3: "well_grouped [(''feat'', [login_commit]), (''fix'', [crash_commit])]"
    using t [of _ _ "[login_commit, crash_commit]"
        "[(''feat'', [login_commit]), (''fix'', [crash_commit])]"] by blast
  from h1 h2 h3 c1 c2 c3 show ?thesis by blast
qed

text \<open>
  Claim C1 as stated fails: the leading word of \<^verbatim>\<open>Feat: x\<close> is the type as it stands,
  not its lower-case form, and the commit is grouped under it.
\<close>

theorem commit_type_lower_case_counterexample:
  "commit_type ''Feat: x'' = ''Feat'' \<and> commit_type ''Feat: x'' \<noteq> toLowerCase ''Feat'' \<and>
   groupCommitsByType [commit_of ''abc1234def'' ''Feat: x'' ''A'' ''2024-01-02T10:00:00Z''] =
     Inr [(''Feat'', [commit_of ''abc1234def'' ''Feat: x'' ''A'' ''2024-01-02T10:00:00Z''])]"
  by (simp add: commit_type_def match_type_def is_word_char_def toLowerCase_def
      toLowerCase_char_def groupCommitsByType_def group_commit_def object_prototype_keys_def
      commit_of_def)

section \<open>Properties of the external layout\<close>


lemma foldl_append_concat:
  "foldl (\<lambda>acc x. acc @ f x) init xs = init @ concat (map f xs)"
  by (induction xs arbitrary: init) simp_all

lemma add_section_text:
  "add_section heading kw b changelog = changelog @ section_text heading kw b"
  by (simp add: add_section_def section_text_def foldl_append_concat)

lemma relevant_bucket:
  "filter (message_starts kw) (filter (\<lambda>c. p c \<or> message_starts kw c) commits) = bucket kw commits"
  "filter (message_starts kw) (filter (\<lambda>c. message_starts kw c \<or> p c) commits) = bucket kw commits"
  by (auto simp: bucket_def intro: filter_cong)

lemma relevant_buckets:
  "filter (message_starts ''feat'')
     (filter (\<lambda>c. message_starts ''feat'' c \<or> message_starts ''fix'' c \<or>
                  message_starts ''perf'' c \<or> message_starts ''breaking'' c) commits) =
   bucket ''feat'' commits"
  "filter (message_starts ''fix'')
     (filter (\<lambda>c. message_starts ''feat'' c \<or> message_starts ''fix'' c \<or>
                  message_starts ''perf'' c \<or> message_starts ''breaking'' c) commits) =
   bucket ''fix'' commits"
  "filter (message_starts ''perf'')
     (filter (\<lambda>c. message_starts ''feat'' c \<or> message_starts ''fix'' c \<or>
                  message_starts ''perf'' c \<or> message_starts ''breaking'' c) commits) =
   bucket ''perf'' commits"
  "filter (message_starts ''breaking'')
     (filter (\<lambda>c. message_starts ''feat'' c \<or> message_starts ''fix'' c \<or>
                  message_starts ''perf'' c \<or> message_starts ''breaking'' c) commits) =
   bucket ''breaking'' commits"
  unfolding bucket_def filter_filter by (rule filter_cong; blast)+

lemma generateExternalChangelog_sections:
  "generateExternalChangelog repoName commits dateRange =
     ''# '' @ repoName @ '' - Changelog'' @ NL @ NL @ ''**'' @ dateRange @ ''**'' @ NL @ NL @
     section_text features_heading ''feat'' (bucket ''feat'' commits) @
     section_text breaking_heading ''breaking'' (bucket ''breaking'' commits) @
     section_text fixes_heading ''fix'' (bucket ''fix'' commits) @
     section_text performance_heading ''perf'' (bucket ''perf'' commits)"
  unfolding generateExternalChangelog_def Let_def relevant_buckets add_section_text
  by simp













lemmas example_commits =
  login_commit_def crash_commit_def docs_commit_def revert_commit_def ctor_commit_def commit_of_def

lemma example_external:
  "generateExternalChangelog ''repo'' [login_commit, docs_commit, crash_commit] ''2024-01-01 - 2024-01-08'' =
     ''# repo - Changelog'' @ NL @ NL @ ''**2024-01-01 - 2024-01-08**'' @ NL @ NL @
     features_heading @ NL @ NL @ ''- add login'' @ NL @ NL @
     fixes_heading @ NL @ NL @ ''- crash on start'' @ NL @ NL"
  by (simp add: generateExternalChangelog_sections bucket_def section_text_def message_starts_def
      startsWith_def toLowerCase_def toLowerCase_char_def strip_prefix_def prefix_match_def
      is_space_char_def example_commits)




text \<open>
  Claim C3, as the code has it: the external layout is determined by the repository
  name, the date range and the messages of the commits; the hash, the author and the
  date of a commit are never read.
\<close>

theorem external_layout_independent:
  assumes "map (\<lambda>c. commit_info.message (commit c)) commits =
           map (\<lambda>c. commit_info.message (commit c)) commits'"
  shows "generateExternalChangelog repoName commits dateRange =
         generateExternalChangelog repoName commits' dateRange"
proof -
  let ?m = "\<lambda>c. commit_info.message (commit c)"
  have sec: "section_text heading kw (bucket kw cs) =
      (let ms = filter (\<lambda>m. startsWith (toLowerCase m) kw) (map ?m cs)
       in if ms = [] then []
          else heading @ NL @ NL @ concat (map (\<lambda>m. ''- '' @ strip_prefix kw m @ NL) ms) @ NL)"
    for heading kw cs
  proof -
    have "message_starts kw = (\<lambda>c. startsWith (toLowerCase (?m c)) kw)"
      by (rule ext) (simp add: message_starts_def)
    then have "filter (\<lambda>m. startsWith (toLowerCase m) kw) (map ?m cs) = map ?m (bucket kw cs)"
      by (simp add: bucket_def filter_map comp_def)
    then show ?thesis by (simp add: section_text_def comp_def)
  qed
  show ?thesis unfolding generateExternalChangelog_sections sec using assms by simp
qed


theorem external_layout_independent_witness:
  "map (\<lambda>c. commit_info.message (commit c)) [login_commit, crash_commit] =
   map (\<lambda>c. commit_info.message (commit c))
     [commit_of ''7777777777'' ''feat: add login'' ''Z'' ''2020-05-05T00:00:00Z'',
      commit_of ''8888888888'' ''fix: crash on start'' ''Y'' ''2020-06-06T00:00:00Z''] \<and>
   generateExternalChangelog ''repo'' [login_commit, crash_commit] ''2024-01-01 - 2024-01-08'' =
   generateExternalChangelog ''repo''
     [commit_of ''7777777777'' ''feat: add login'' ''Z'' ''2020-05-05T00:00:00Z'',
      commit_of ''8888888888'' ''fix: crash on start'' ''Y'' ''2020-06-06T00:00:00Z'']
     ''2024-01-01 - 2024-01-08''"
proof -
  have h: "map (\<lambda>c. commit_info.message (commit c)) [login_commit, crash_commit] =
   map (\<lambda>c. commit_info.message (commit c))
     [commit_of ''7777777777'' ''feat: add login'' ''Z'' ''2020-05-05T00:00:00Z'',
      commit_of ''8888888888'' ''fix: crash on start'' ''Y'' ''2020-06-06T00:00:00Z'']"
    by (simp add: example_commits)
  from h external_layout_independent [OF h] show ?thesis by blast
qed

text \<open>
  Claim C3 as stated fails: the message of one commit can quote the hash of another, and
  the layout lists the message.
\<close>

theorem external_layout_hash_counterexample:
  "take 7 (sha login_commit) = ''abc1234'' \<and>
   generateExternalChangelog ''repo'' [revert_commit, login_commit] ''2024-01-01 - 2024-01-08'' =
     ''# repo - Changelog'' @ NL @ NL @ ''**2024-01-01 - 2024-01-08**'' @ NL @ NL @
     features_heading @ NL @ NL @ ''- add login'' @ NL @ NL @
     fixes_heading @ NL @ NL @ ''- revert abc1234'' @ NL @ NL \<and>
   js_includes
     (generateExternalChangelog ''repo'' [revert_commit, login_commit] ''2024-01-01 - 2024-01-08'')
     (take 7 (sha login_commit))"
proof -
  have 1: "take 7 (sha login_commit) = ''abc1234''" by (simp add: example_commits)
  have 2: "generateExternalChangelog ''repo'' [revert_commit, login_commit] ''2024-01-01 - 2024-01-08'' =
     ''# repo - Changelog'' @ NL @ NL @ ''**2024-01-01 - 2024-01-08**'' @ NL @ NL @
     features_heading @ NL @ NL @ ''- add login'' @ NL @ NL @
     fixes_heading @ NL @ NL @ ''- revert abc1234'' @ NL @ NL"
    by (simp add: generateExternalChangelog_sections bucket_def section_text_def message_starts_def
      startsWith_def toLowerCase_def toLowerCase_char_def strip_prefix_def prefix_match_def
      is_space_char_def example_commits)
  have 3: "js_includes
     (''# repo - Changelog'' @ NL @ NL @ ''**2024-01-01 - 2024-01-08**'' @ NL @ NL @
     features_heading @ NL @ NL @ ''- add login'' @ NL @ NL @
     fixes_heading @ NL @ NL @ ''- revert abc1234'' @ NL @ NL) ''abc1234''"
    by (simp add: NL_def features_heading_def fixes_heading_def startsWith_def)
  from 1 2 3 show ?thesis by simp
qed

section \<open>Properties of the internal layout\<close>

text \<open>
  When no commit's type is an inherited name and every date is valid, the internal
  layout is the header followed by one section per type, and the sections together list
  every commit exactly once, each under its own type.
\<close>

lemma mset_object_keys: "mset (object_keys g) = mset (map fst g)"
  by (simp add: object_keys_def)

lemma render_commits_result:
  "render_commits isoDate changelog cs = Inr out \<Longrightarrow>
   out = changelog @ concat (map (entry_of isoDate) cs)"
proof (induction cs arbitrary: changelog)
  case Nil
  then show ?case by simp
next
  case (Cons c cs)
  from Cons.prems obtain d where d: "isoDate (date (author (commit c))) = Some d"
    and r: "render_commits isoDate (changelog @ commit_entry d c) cs = Inr out"
    by (auto split: option.splits)
  from Cons.IH [OF r] d show ?case by (simp add: entry_of_def)
qed

lemma render_commits_succeeds:
  "\<forall>c\<in>set cs. isoDate (date (author (commit c))) \<noteq> None \<Longrightarrow>
   \<exists>out. render_commits isoDate changelog cs = Inr out"
  by (induction cs arbitrary: changelog) auto

lemma render_types_result:
  "render_types isoDate g changelog ts = Inr out \<Longrightarrow>
   out = changelog @ concat (map (\<lambda>t. type_section isoDate (t, the (map_of g t))) ts)"
proof (induction ts arbitrary: changelog)
  case Nil
  then show ?case by simp
next
  case (Cons t ts)
  from Cons.prems obtain cs ch where m: "map_of g t = Some cs"
    and c: "render_commits isoDate (changelog @ ''## '' @ formatCommitType t @ NL @ NL) cs = Inr ch"
    and r: "render_types isoDate g (ch @ NL) ts = Inr out"
    by (auto split: option.splits sum.splits)
  from render_commits_result [OF c] Cons.IH [OF r] m show ?case
    by (simp add: type_section_def)
qed

lemma render_types_succeeds:
  assumes "\<forall>t\<in>set ts. \<exists>cs. map_of g t = Some cs \<and>
             (\<forall>c\<in>set cs. isoDate (date (author (commit c))) \<noteq> None)"
  shows "\<exists>out. render_types isoDate g changelog ts = Inr out"
  using assms
proof (induction ts arbitrary: changelog)
  case Nil
  then show ?case by simp
next
  case (Cons t ts)
  then obtain cs where m: "map_of g t = Some cs"
    and v: "\<forall>c\<in>set cs. isoDate (date (author (commit c))) \<noteq> None"
    by auto
  from render_commits_succeeds [OF v]
  obtain ch where "render_commits isoDate (changelog @ ''## '' @ formatCommitType t @ NL @ NL) cs = Inr ch"
    by blast
  with m Cons show ?case by simp
qed


lemma mset_concat_map_cong:
  assumes "mset xs = mset ys"
  shows "mset (concat (map f xs)) = mset (concat (map f ys))"
proof -
  have "mset (concat (map f zs)) = \<Sum>\<^sub># (image_mset (\<lambda>z. mset (f z)) (mset zs))" for zs
    by (induction zs) simp_all
  with assms show ?thesis by simp
qed

lemma regrouped:
  assumes "distinct (map fst g)" and "mset ks = mset (map fst g)"
  shows "mset (map (\<lambda>t. (t, the (map_of g t))) ks) = mset g"
proof -
  have "mset (map (\<lambda>t. (t, the (map_of g t))) ks) =
      image_mset (\<lambda>t. (t, the (map_of g t))) (mset ks)"
    by simp
  also have "\<dots> = image_mset (\<lambda>t. (t, the (map_of g t))) (mset (map fst g))"
    by (simp only: assms(2))
  also have "\<dots> = mset (map (\<lambda>t. (t, the (map_of g t))) (map fst g))"
    by (simp only: mset_map)
  also have "map (\<lambda>t. (t, the (map_of g t))) (map fst g) =
      map (\<lambda>p. (fst p, the (map_of g (fst p)))) g"
    by simp
  also have "map (\<lambda>p. (fst p, the (map_of g (fst p)))) g = map (\<lambda>p. p) g"
  proof (rule map_cong [OF refl])
    fix p assume p: "p \<in> set g"
    obtain a b where ab: "p = (a, b)" by (cases p)
    from p assms(1) have "map_of g (fst p) = Some (snd p)"
      unfolding ab by simp
    then show "(fst p, the (map_of g (fst p))) = p" by simp
  qed
  finally show ?thesis by simp
qed

lemma internal_layout_entries:
  assumes types: "\<forall>c\<in>set commits.
      commit_type (commit_info.message (commit c)) \<notin> set object_prototype_keys"
    and dates: "\<forall>c\<in>set commits. isoDate (date (author (commit c))) \<noteq> None"
  shows "\<exists>groups.
      generateInternalChangelog isoDate repoName commits dateRange =
        Inr (''# Changelog: '' @ repoName @ NL @ NL @ ''**Date Range:** '' @ dateRange @ NL @ NL @
             concat (map (type_section isoDate) groups)) \<and>
      mset (concat (map snd groups)) = mset commits \<and> well_grouped groups"
proof -
  let ?header = "''# Changelog: '' @ repoName @ NL @ NL @ ''**Date Range:** '' @ dateRange @ NL @ NL"
  from group_commits_succeeds [OF types, of "[]"]
  obtain g where g: "groupCommitsByType commits = Inr g"
    by (auto simp: groupCommitsByType_def)
  from groupCommitsByType_result [OF g]
  have wg: "well_grouped g" and mg: "mset (concat (map snd g)) = mset commits" by blast+
  from wg have dg: "distinct (map fst g)" by (simp add: well_grouped_def)
  let ?ks = "object_keys g"
  let ?groups = "map (\<lambda>t. (t, the (map_of g t))) ?ks"
  have mk: "mset ?ks = mset (map fst g)" by (rule mset_object_keys)
  have mgroups: "mset ?groups = mset g" using dg mk by (rule regrouped)
  then have sgroups: "set ?groups = set g" by (rule mset_eq_setD)
  have "\<forall>t\<in>set ?ks. \<exists>cs. map_of g t = Some cs \<and>
      (\<forall>c\<in>set cs. isoDate (date (author (commit c))) \<noteq> None)"
  proof
    fix t assume "t \<in> set ?ks"
    then have "t \<in> set (map fst g)" using mk by (metis set_mset_mset)
    then obtain cs where cs: "(t, cs) \<in> set g" by auto
    with dg have m: "map_of g t = Some cs" by simp
    from cs have "set cs \<subseteq> set (concat (map snd g))" by force
    also have "\<dots> = set commits" using mg by (rule mset_eq_setD)
    finally have "\<forall>c\<in>set cs. isoDate (date (author (commit c))) \<noteq> None"
      using dates by blast
    with m show "\<exists>cs. map_of g t = Some cs \<and>
      (\<forall>c\<in>set cs. isoDate (date (author (commit c))) \<noteq> None)" by blast
  qed
  from render_types_succeeds [OF this, of ?header]
  obtain out where out: "render_types isoDate g ?header ?ks = Inr out" by blast
  from render_types_result [OF out]
  have "out = ?header @ concat (map (type_section isoDate) ?groups)"
    by (simp add: comp_def)
  with g out have 1: "generateInternalChangelog isoDate repoName commits dateRange =
      Inr (?header @ concat (map (type_section isoDate) ?groups))"
    by (simp add: generateInternalChangelog_def)
  have 2: "mset (concat (map snd ?groups)) = mset commits"
    using mset_concat_map_cong [OF mgroups, of snd] mg by simp
  have "mset (map fst ?groups) = mset (map fst g)"
    using mgroups by (metis mset_map)
  with dg have "distinct (map fst ?groups)" by (metis mset_eq_imp_distinct_iff)
  with wg sgroups have 3: "well_grouped ?groups"
    by (simp add: well_grouped_def list_all_iff)
  from 1 2 3 show ?thesis by (intro exI [of _ ?groups]) simp
qed

lemma internal_layout_example:
  "generateInternalChangelog (\<lambda>s. Some (take 10 s)) ''repo'' [login_commit, crash_commit]
     ''2024-01-01 - 2024-01-08'' =
   Inr (''# Changelog: repo'' @ NL @ NL @ ''**Date Range:** 2024-01-01 - 2024-01-08'' @ NL @ NL @
        ''## Features'' @ NL @ NL @ ''- **abc1234** feat: add login (A, 2024-01-02)'' @ NL @ NL @
        ''## Bug Fixes'' @ NL @ NL @ ''- **def5678** fix: crash on start (B, 2024-01-03)'' @ NL @ NL)"
proof -
  have 1: "commit_type ''feat: add login'' = ''feat''"
    by (simp add: commit_type_def match_type_def is_word_char_def)
  have 2: "commit_type ''fix: crash on start'' = ''fix''"
    by (simp add: commit_type_def match_type_def is_word_char_def)
  have g: "groupCommitsByType [login_commit, crash_commit] =
      Inr [(''feat'', [login_commit]), (''fix'', [crash_commit])]"
    by (simp add: groupCommitsByType_def group_commit_def example_commits 1 2
        object_prototype_keys_def)
  have k: "object_keys [(''feat'', [login_commit]), (''fix'', [crash_commit])] = [''feat'', ''fix'']"
    by (simp add: object_keys_def is_array_index_def is_digit_def)
  have "generateInternalChangelog (\<lambda>s. Some (take 10 s)) ''repo'' [login_commit, crash_commit]
      ''2024-01-01 - 2024-01-08'' =
    render_types (\<lambda>s. Some (take 10 s)) [(''feat'', [login_commit]), (''fix'', [crash_commit])]
      (''# Changelog: repo'' @ NL @ NL @ ''**Date Range:** 2024-01-01 - 2024-01-08'' @ NL @ NL)
      [''feat'', ''fix'']"
    by (simp add: generateInternalChangelog_def g k)
  also have "\<dots> =
    Inr (''# Changelog: repo'' @ NL @ NL @ ''**Date Range:** 2024-01-01 - 2024-01-08'' @ NL @ NL @
        ''## Features'' @ NL @ NL @ ''- **abc1234** feat: add login (A, 2024-01-02)'' @ NL @ NL @
        ''## Bug Fixes'' @ NL @ NL @ ''- **def5678** fix: crash on start (B, 2024-01-03)'' @ NL @ NL)"
    by (simp add: formatCommitType_def typeMap_def commit_entry_def example_commits)
  finally show ?thesis .
qed

lemma object_keys_example:
  "object_keys [(''10'', a), (''b'', b), (''2'', c), (''007'', d)] = [''2'', ''10'', ''b'', ''007'']"
  by (simp add: object_keys_def is_array_index_def is_digit_def index_value_def)

text \<open>
  Claim C4 fails on a commit whose type is the name of a property that every object
  inherits: \<^verbatim>\<open>types[type]\<close> finds the inherited value, no array is created, and the
  call of \<^verbatim>\<open>push\<close> throws, so no document is rendered.
\<close>

theorem internal_layout_inherited_name:
  "commit_type (commit_info.message (commit ctor_commit)) = ''constructor'' \<and>
   groupCommitsByType [login_commit, ctor_commit] =
     Inl (TypeError ''types[type].push is not a function'') \<and>
   generateInternalChangelog isoDate ''repo'' [login_commit, ctor_commit] ''2024-01-01 - 2024-01-08'' =
     Inl (TypeError ''types[type].push is not a function'') \<and>
   generateChangelog
     \<lparr>fetchCommits = (\<lambda>u d. Inr [login_commit, ctor_commit]),
      dateRangeOf = (\<lambda>d. Inr ''2024-01-01 - 2024-01-08''),
      enhanceChangelog = (\<lambda>cs f r d. AiNull),
      isoDateOf = isoDate\<rparr> ''https://github.com/o/repo.git'' 7 ''internal'' False =
     \<lparr>content = ''Error generating changelog: types[type].push is not a function'',
      title = ''Error''\<rparr>"
proof -
  have 1: "commit_type (commit_info.message (commit ctor_commit)) = ''constructor''"
    by (simp add: example_commits commit_type_def match_type_def is_word_char_def)
  have 2: "commit_type (commit_info.message (commit login_commit)) = ''feat''"
    by (simp add: example_commits commit_type_def match_type_def is_word_char_def)
  have 3: "groupCommitsByType [login_commit, ctor_commit] =
     Inl (TypeError ''types[type].push is not a function'')"
    by (simp add: groupCommitsByType_def group_commit_def 1 2 object_prototype_keys_def)
  have 4: "generateInternalChangelog isoDate r [login_commit, ctor_commit] dr =
     Inl (TypeError ''types[type].push is not a function'')" for r dr
    by (simp add: generateInternalChangelog_def 3)
  from 1 3 4 show ?thesis by (simp add: generateChangelog_def error_document_def)
qed

section \<open>Properties of \<^verbatim>\<open>readDB\<close>\<close>

lemma readDB_example:
  "readDB (Parsed (JObj [(''repositories'', JStr ''not-an-array'')])) = empty_store"
  by (simp add: readDB_def ensure_array_def empty_store_def)

lemma isArray_cases: "isArray x \<longleftrightarrow> (\<exists>xs ps. x = Some (JArr xs ps))"
  by (cases x rule: isArray.cases) simp_all

lemma ensure_array_object:
  "\<exists>ps'. ensure_array k (JObj ps) = Inr (JObj ps') \<and> isArray (map_of ps' k) \<and>
         (\<forall>k'. k' \<noteq> k \<longrightarrow> map_of ps' k' = map_of ps k') \<and>
         (isArray (map_of ps k) \<longrightarrow> ps' = ps)"
proof (cases "isArray (map_of ps k)")
  case True
  then have "truthy (map_of ps k)" by (auto simp: isArray_cases)
  with True show ?thesis by (simp add: ensure_array_def)
next
  case False
  then have "ensure_array k (JObj ps) = Inr (JObj (AList.update k (JArr [] []) ps))"
    by (simp add: ensure_array_def)
  with False show ?thesis by (simp add: update_conv')
qed

lemma ensure_array_array:
  "\<exists>ps'. ensure_array k (JArr xs ps) = Inr (JArr xs ps') \<and> isArray (map_of ps' k) \<and>
         (\<forall>k'. k' \<noteq> k \<longrightarrow> map_of ps' k' = map_of ps k') \<and>
         (isArray (map_of ps k) \<longrightarrow> ps' = ps)"
proof (cases "isArray (map_of ps k)")
  case True
  then have "truthy (map_of ps k)" by (auto simp: isArray_cases)
  with True show ?thesis by (simp add: ensure_array_def)
next
  case False
  then have "ensure_array k (JArr xs ps) = Inr (JArr xs (AList.update k (JArr [] []) ps))"
    by (simp add: ensure_array_def)
  with False show ?thesis by (simp add: update_conv')
qed

lemma readDB_structured:
  assumes "file = Missing \<or> (\<exists>e. file = Throws e) \<or> file = Parsed JNull \<or>
           (\<exists>ps. file = Parsed (JObj ps)) \<or> (\<exists>xs ps. file = Parsed (JArr xs ps))"
  shows "both_arrays (readDB file)"
proof -
  have e: "both_arrays empty_store" by (simp add: both_arrays_def empty_store_def)
  have o: "both_arrays (readDB (Parsed (JObj ps)))" for ps
  proof -
    obtain ps1 where 1: "ensure_array ''repositories'' (JObj ps) = Inr (JObj ps1)"
      and a1: "isArray (map_of ps1 ''repositories'')"
      using ensure_array_object [of "''repositories''" ps] by blast
    obtain ps2 where 2: "ensure_array ''history'' (JObj ps1) = Inr (JObj ps2)"
      and a2: "isArray (map_of ps2 ''history'')"
      and k2: "\<forall>k'. k' \<noteq> ''history'' \<longrightarrow> map_of ps2 k' = map_of ps1 k'"
      using ensure_array_object [of "''history''" ps1] by blast
    from k2 a1 have "isArray (map_of ps2 ''repositories'')" by simp
    with 1 2 a2 show ?thesis by (simp add: readDB_def both_arrays_def)
  qed
  have a: "both_arrays (readDB (Parsed (JArr xs ps)))" for xs ps
  proof -
    obtain ps1 where 1: "ensure_array ''repositories'' (JArr xs ps) = Inr (JArr xs ps1)"
      and a1: "isArray (map_of ps1 ''repositories'')"
      using ensure_array_array [of "''repositories''" xs ps] by blast
    obtain ps2 where 2: "ensure_array ''history'' (JArr xs ps1) = Inr (JArr xs ps2)"
      and a2: "isArray (map_of ps2 ''history'')"
      and k2: "\<forall>k'. k' \<noteq> ''history'' \<longrightarrow> map_of ps2 k' = map_of ps1 k'"
      using ensure_array_array [of "''history''" xs ps1] by blast
    from k2 a1 have "isArray (map_of ps2 ''repositories'')" by simp
    with 1 2 a2 show ?thesis by (simp add: readDB_def both_arrays_def)
  qed
  have n: "readDB (Parsed JNull) = empty_store" by (simp add: readDB_def ensure_array_def)
  have m: "readDB Missing = empty_store" by (simp add: readDB_def)
  have t: "readDB (Throws err) = empty_store" for err by (simp add: readDB_def)
  from assms e o a n m t show ?thesis by auto
qed

lemma readDB_well_formed:
  assumes "isArray (map_of ps ''repositories'')" and "isArray (map_of ps ''history'')"
  shows "readDB (Parsed (JObj ps)) = JObj ps"
proof -
  from assms have "truthy (map_of ps ''repositories'')" "truthy (map_of ps ''history'')"
    by (auto simp: isArray_cases)
  with assms show ?thesis by (simp add: readDB_def ensure_array_def)
qed

text \<open>
  Claim C8 fails on a backing file whose text is a number, a string or a boolean: the
  two assignments do nothing on such a value, and the read returns it as it is, without
  the two arrays.
\<close>

theorem readDB_primitive:
  "readDB (Parsed (JNum 5)) = JNum 5 \<and>
   get_field (readDB (Parsed (JNum 5))) ''repositories'' = Inr None \<and>
   get_field (readDB (Parsed (JNum 5))) ''history'' = Inr None"
  by (simp add: readDB_def ensure_array_def)

section \<open>Properties of \<^verbatim>\<open>generateChangelog\<close>\<close>

text \<open>
  Claim C5: when the fetched commit list is empty, \<^verbatim>\<open>generateChangelog\<close> returns the
  placeholder document, whatever the layout and whether or not the summarizer was
  requested.
\<close>

theorem generateChangelog_no_commits:
  "fetchCommits env repo_url n_days = Inr [] \<Longrightarrow>
   generateChangelog env repo_url n_days format useAI =
     \<lparr>content = ''No commits found for the specified period.'', title = ''No Changes''\<rparr>"
  by (simp add: generateChangelog_def)

theorem generateChangelog_no_commits_witness:
  "fetchCommits
     \<lparr>fetchCommits = (\<lambda>u d. Inr []), dateRangeOf = (\<lambda>d. Inr ''2024-01-01 - 2024-01-08''),
      enhanceChangelog = (\<lambda>cs f r d. AiResult ''# Release'' ''Release''),
      isoDateOf = (\<lambda>s. Some (take 10 s))\<rparr> ''https://github.com/o/r'' 7 = Inr [] \<and>
   generateChangelog
     \<lparr>fetchCommits = (\<lambda>u d. Inr []), dateRangeOf = (\<lambda>d. Inr ''2024-01-01 - 2024-01-08''),
      enhanceChangelog = (\<lambda>cs f r d. AiResult ''# Release'' ''Release''),
      isoDateOf = (\<lambda>s. Some (take 10 s))\<rparr> ''https://github.com/o/r'' 7 ''external'' True =
     \<lparr>content = ''No commits found for the specified period.'', title = ''No Changes''\<rparr>"
proof -
  let ?env = "\<lparr>fetchCommits = (\<lambda>u d. Inr []),
      dateRangeOf = (\<lambda>d. Inr ''2024-01-01 - 2024-01-08''),
      enhanceChangelog = (\<lambda>cs f r d. AiResult ''# Release'' ''Release''),
      isoDateOf = (\<lambda>s. Some (take 10 s))\<rparr>"
  have h: "fetchCommits ?env ''https://github.com/o/r'' 7 = Inr []" by simp
  from h generateChangelog_no_commits [OF h, of "''external''" True] show ?thesis by blast
qed

section \<open>Properties of the store\<close>

lemma findIndex_lower: "- 1 \<le> findIndex p xs"
  by (induction xs) (auto simp: Let_def)

lemma findIndex_none: "findIndex p xs = - 1 \<longleftrightarrow> (\<forall>x\<in>set xs. \<not> p x)"
proof (induction xs)
  case Nil
  then show ?case by simp
next
  case (Cons x xs)
  have "- 1 \<le> findIndex p xs" by (rule findIndex_lower)
  then have "findIndex p xs + 1 \<noteq> - 1" by arith
  with Cons show ?case by (auto simp: Let_def)
qed

lemma findIndex_nonneg: "findIndex p xs \<noteq> - 1 \<Longrightarrow> 0 \<le> findIndex p xs"
  by (induction xs) (auto simp: Let_def split: if_splits)

lemma findIndex_first:
  "findIndex p xs \<noteq> - 1 \<Longrightarrow>
   nat (findIndex p xs) < length xs \<and> p (xs ! nat (findIndex p xs)) \<and>
   (\<forall>j < nat (findIndex p xs). \<not> p (xs ! j))"
proof (induction xs)
  case Nil
  then show ?case by simp
next
  case (Cons x xs)
  show ?case
  proof (cases "p x")
    case True
    then show ?thesis by simp
  next
    case False
    with Cons.prems have ne: "findIndex p xs \<noteq> - 1" by (auto simp: Let_def split: if_splits)
    then have nn: "0 \<le> findIndex p xs" by (rule findIndex_nonneg)
    from ne False have eq: "findIndex p (x # xs) = findIndex p xs + 1" by (simp add: Let_def)
    from nn have n: "nat (findIndex p xs + 1) = Suc (nat (findIndex p xs))" by simp
    from Cons.IH [OF ne] False show ?thesis
      unfolding eq n by (auto simp: less_Suc_eq_0_disj)
  qed
qed

lemma mset_sort_newest_first: "mset (sort_newest_first t xs) = mset xs"
  by (simp add: sort_newest_first_def)

lemma set_sort_newest_first: "set (sort_newest_first t xs) = set xs"
  by (simp add: sort_newest_first_def)

lemma newest_first_sort: "newest_first t (sort_newest_first t xs)"
proof -
  have "sorted (map (\<lambda>x. - t x) (sort_key (\<lambda>x. - t x) xs))" by (rule sorted_sort_key)
  then show ?thesis
    unfolding newest_first_def sort_newest_first_def
    by (simp add: sorted_wrt_map)
qed

lemma distinct_map_sort_newest_first:
  "distinct (map f (sort_newest_first t xs)) = distinct (map f xs)"
proof -
  have "mset (map f (sort_newest_first t xs)) = mset (map f xs)"
    by (simp add: mset_sort_newest_first)
  then show ?thesis by (rule mset_eq_imp_distinct_iff)
qed


text \<open>The list \<^verbatim>\<open>saveRepository\<close> hands to the sort.\<close>

lemma saveRepository_repositories:
  "repositories (saveRepository u n t d) =
     sort_newest_first lastUsed
       (if findIndex (\<lambda>repo. repository.url repo = u) (repositories d) \<noteq> - 1
        then (repositories d)[nat (findIndex (\<lambda>repo. repository.url repo = u) (repositories d)) :=
               ((repositories d) ! nat (findIndex (\<lambda>repo. repository.url repo = u) (repositories d)))
                 \<lparr>lastUsed := t\<rparr>]
        else repositories d @ [\<lparr>url = u, repository.name = n, lastUsed = t\<rparr>])"
  by (simp add: saveRepository_def Let_def)

lemma touched_urls:
  assumes "k < length rs" and "url (rs ! k) = u"
  shows "map url (rs[k := (rs ! k)\<lparr>lastUsed := t\<rparr>]) = map url rs"
proof -
  have "map url (rs[k := (rs ! k)\<lparr>lastUsed := t\<rparr>]) = (map url rs)[k := url (rs ! k)]"
    by (simp add: map_update)
  also have "\<dots> = map url rs"
    using assms(1) by (simp add: list_update_same_conv)
  finally show ?thesis .
qed

lemma touched_members:
  assumes d: "distinct (map url rs)" and k: "k < length rs" and u: "url (rs ! k) = u"
    and r: "r \<in> set (rs[k := (rs ! k)\<lparr>lastUsed := t\<rparr>])"
  shows "if url r = u then lastUsed r = t else r \<in> set rs"
proof -
  from r obtain j where j: "j < length rs" and rj: "r = (rs[k := (rs ! k)\<lparr>lastUsed := t\<rparr>]) ! j"
    by (auto simp: in_set_conv_nth)
  show ?thesis
  proof (cases "j = k")
    case True
    with rj k u show ?thesis by simp
  next
    case False
    with rj have eq: "r = rs ! j" by simp
    have "url (rs ! j) \<noteq> url (rs ! k)"
    proof
      assume "url (rs ! j) = url (rs ! k)"
      then have "map url rs ! j = map url rs ! k" using j k by simp
      moreover have "(map url rs ! j = map url rs ! k) = (j = k)"
        using d j k by (intro nth_eq_iff_index_eq) simp_all
      ultimately show False using False by simp
    qed
    with eq u j show ?thesis by auto
  qed
qed

lemma saveRepository_step:
  assumes d: "distinct (map url (repositories d))"
  shows "distinct (map url (repositories (saveRepository u n t d))) \<and>
         set (map url (repositories (saveRepository u n t d))) =
           insert u (set (map url (repositories d))) \<and>
         (\<forall>r\<in>set (repositories (saveRepository u n t d)).
            if url r = u then lastUsed r = t else r \<in> set (repositories d))"
proof (cases "findIndex (\<lambda>repo. repository.url repo = u) (repositories d) = - 1")
  case True
  then have none: "\<forall>r\<in>set (repositories d). url r \<noteq> u" by (simp add: findIndex_none)
  from True have eq: "repositories (saveRepository u n t d) =
      sort_newest_first lastUsed (repositories d @ [\<lparr>url = u, repository.name = n, lastUsed = t\<rparr>])"
    by (simp add: saveRepository_repositories)
  have "distinct (map url (repositories d @ [\<lparr>url = u, repository.name = n, lastUsed = t\<rparr>]))"
    using d none by auto
  then have 1: "distinct (map url (repositories (saveRepository u n t d)))"
    unfolding eq by (simp only: distinct_map_sort_newest_first)
  have 2: "set (map url (repositories (saveRepository u n t d))) =
      insert u (set (map url (repositories d)))"
    unfolding eq by (simp add: set_sort_newest_first)
  have 3: "\<forall>r\<in>set (repositories (saveRepository u n t d)).
      if url r = u then lastUsed r = t else r \<in> set (repositories d)"
    unfolding eq using none by (auto simp: set_sort_newest_first)
  from 1 2 3 show ?thesis by blast
next
  case False
  let ?rs = "repositories d"
  let ?k = "nat (findIndex (\<lambda>repo. repository.url repo = u) ?rs)"
  from findIndex_first [OF False] have k: "?k < length ?rs" and u: "url (?rs ! ?k) = u"
    by auto
  from False have eq: "repositories (saveRepository u n t d) =
      sort_newest_first lastUsed (?rs[?k := (?rs ! ?k)\<lparr>lastUsed := t\<rparr>])"
    by (simp add: saveRepository_repositories)
  have urls: "map url (?rs[?k := (?rs ! ?k)\<lparr>lastUsed := t\<rparr>]) = map url ?rs"
    using k u by (rule touched_urls)
  have 1: "distinct (map url (repositories (saveRepository u n t d)))"
    unfolding eq by (simp only: distinct_map_sort_newest_first urls d)
  have "u \<in> set (map url ?rs)" using k u by (metis length_map nth_map nth_mem)
  then have 2: "set (map url (repositories (saveRepository u n t d))) =
      insert u (set (map url ?rs))"
    unfolding eq using urls
    by (metis insert_absorb mset_map mset_sort_newest_first set_mset_mset)
  have 3: "\<forall>r\<in>set (repositories (saveRepository u n t d)).
      if url r = u then lastUsed r = t else r \<in> set ?rs"
    unfolding eq set_sort_newest_first using touched_members [OF d k u] by blast
  from 1 2 3 show ?thesis by blast
qed

lemma repositories_saveChangelogGeneration:
  "repositories (saveChangelogGeneration u n sd ed h t1 t2 d) =
   repositories (saveRepository u n t1 d)"
  by (simp add: saveChangelogGeneration_def Let_def)

lemma repositories_apply_call:
  "\<exists>n. repositories (apply_call d c) = repositories (saveRepository (call_url c) n (call_time c) d)"
  by (cases c) (auto simp: repositories_saveChangelogGeneration)

lemma last_call_time_snoc:
  "last_call_time u (calls @ [c]) =
     (if call_url c = u then Some (call_time c) else last_call_time u calls)"
  by (simp add: last_call_time_def Let_def)

lemma run_calls_snoc: "run_calls (calls @ [c]) = apply_call (run_calls calls) c"
  by (simp add: run_calls_def)

lemma run_calls_invariant:
  "distinct (map url (repositories (run_calls calls))) \<and>
   set (map url (repositories (run_calls calls))) = set (map call_url calls) \<and>
   (\<forall>r\<in>set (repositories (run_calls calls)).
      last_call_time (url r) calls = Some (lastUsed r))"
proof (induction calls rule: rev_induct)
  case Nil
  then show ?case by (simp add: run_calls_def empty_db_def)
next
  case (snoc c calls)
  let ?d = "run_calls calls"
  from snoc have d: "distinct (map url (repositories ?d))"
    and s: "set (map url (repositories ?d)) = set (map call_url calls)"
    and l: "\<forall>r\<in>set (repositories ?d). last_call_time (url r) calls = Some (lastUsed r)"
    by blast+
  obtain n where eq: "repositories (run_calls (calls @ [c])) =
      repositories (saveRepository (call_url c) n (call_time c) ?d)"
    using repositories_apply_call [of ?d c] by (auto simp: run_calls_snoc)
  note step = saveRepository_step [OF d, of "call_url c" n "call_time c"]
  from step have 1: "distinct (map url (repositories (run_calls (calls @ [c]))))"
    unfolding eq by blast
  from step s have 2: "set (map url (repositories (run_calls (calls @ [c])))) =
      set (map call_url (calls @ [c]))"
    unfolding eq by auto
  have 3: "\<forall>r\<in>set (repositories (run_calls (calls @ [c]))).
      last_call_time (url r) (calls @ [c]) = Some (lastUsed r)"
  proof
    fix r
    assume "r \<in> set (repositories (run_calls (calls @ [c])))"
    with step have r: "if url r = call_url c then lastUsed r = call_time c
        else r \<in> set (repositories ?d)"
      unfolding eq by blast
    show "last_call_time (url r) (calls @ [c]) = Some (lastUsed r)"
    proof (cases "url r = call_url c")
      case True
      with r show ?thesis by (simp add: last_call_time_snoc)
    next
      case False
      with r l show ?thesis by (simp add: last_call_time_snoc)
    qed
  qed
  from 1 2 3 show ?case by blast
qed

lemma run_calls_newest_first: "newest_first lastUsed (repositories (run_calls calls))"
proof (cases calls rule: rev_cases)
  case Nil
  then show ?thesis by (simp add: run_calls_def empty_db_def newest_first_def)
next
  case (snoc cs c)
  obtain n where "repositories (run_calls (cs @ [c])) =
      repositories (saveRepository (call_url c) n (call_time c) (run_calls cs))"
    using repositories_apply_call [of "run_calls cs" c] by (auto simp: run_calls_snoc)
  then show ?thesis
    unfolding snoc by (simp add: saveRepository_repositories newest_first_sort)
qed

lemma newest_first_recent: "newest_first lastUsed (getRecentRepositories limit d)"
  using newest_first_sort [of lastUsed "repositories d"]
  unfolding getRecentRepositories_def newest_first_def
  by (rule sorted_wrt_take)

lemma sort_newest_first_head:
  assumes "sort_newest_first t xs = y # ys"
  shows "y \<in> set xs \<and> (\<forall>x\<in>set xs. t x \<le> t y)"
proof -
  have s: "set xs = set (y # ys)"
    using assms set_sort_newest_first [of t xs] by simp
  have "newest_first t (y # ys)"
    using assms newest_first_sort [of t xs] by simp
  then have "\<forall>x\<in>set ys. t x \<le> t y" by (simp add: newest_first_def)
  with s show ?thesis by auto
qed

lemma days_since_eq_div: "days_since now g = - ((g - now) div 86400000)"
proof -
  have "days_since now g = \<lceil>(of_int (now - g) :: rat) / of_int 86400000\<rceil>"
    by (simp add: days_since_def)
  then have "days_since now g = - (- (now - g) div 86400000)"
    by (simp only: ceiling_divide_eq_div)
  then show ?thesis by simp
qed

lemma days_since_bounds:
  "(days_since now g - 1) * 86400000 < now - g \<and> now - g \<le> days_since now g * 86400000"
proof -
  define q where "q = (g - now) div 86400000"
  define m where "m = (g - now) mod 86400000"
  have 1: "g - now = q * 86400000 + m" by (simp add: q_def m_def)
  have 2: "0 \<le> m" by (simp add: m_def)
  have 3: "m < 86400000" by (simp add: m_def)
  have "days_since now g = - q" by (simp add: days_since_eq_div q_def)
  with 1 2 3 show ?thesis by simp
qed

text \<open>
  Claim C6: after any sequence of calls on the empty store, the repository table has
  exactly one record for each URL that was passed, the record's \<open>lastUsed\<close> is the time
  of the most recent call for its URL, and the stored list is sorted by \<open>lastUsed\<close>,
  descending, as is the listing \<^verbatim>\<open>getRecentRepositories\<close> returns.
\<close>

theorem repository_table_after_calls:
  "distinct (map url (repositories (run_calls calls))) \<and>
   set (map url (repositories (run_calls calls))) = set (map call_url calls) \<and>
   (\<forall>r\<in>set (repositories (run_calls calls)).
      last_call_time (url r) calls = Some (lastUsed r)) \<and>
   newest_first lastUsed (repositories (run_calls calls)) \<and>
   newest_first lastUsed (getRecentRepositories limit (run_calls calls))"
  using run_calls_invariant [of calls] run_calls_newest_first [of calls]
    newest_first_recent [of limit "run_calls calls"]
  by blast

theorem repository_table_after_calls_witness:
  "repositories (run_calls example_calls) =
     [\<lparr>url = ''a'', repository.name = ''A'', lastUsed = 30\<rparr>,
      \<lparr>url = ''b'', repository.name = ''B'', lastUsed = 20\<rparr>] \<and>
   last_call_time ''a'' example_calls = Some 30 \<and>
   last_call_time ''b'' example_calls = Some 20 \<and>
   newest_first lastUsed (getRecentRepositories 5 (run_calls example_calls))"
proof -
  have ev: "repositories (run_calls example_calls) =
     [\<lparr>url = ''a'', repository.name = ''A'', lastUsed = 30\<rparr>,
      \<lparr>url = ''b'', repository.name = ''B'', lastUsed = 20\<rparr>]"
    by (simp add: example_calls_def run_calls_def empty_db_def saveRepository_def
        saveChangelogGeneration_def sort_newest_first_def Let_def)
  from repository_table_after_calls [of example_calls 5]
  have "(\<forall>r\<in>set (repositories (run_calls example_calls)).
      last_call_time (url r) example_calls = Some (lastUsed r)) \<and>
    newest_first lastUsed (getRecentRepositories 5 (run_calls example_calls))"
    by blast
  with ev show ?thesis by simp
qed

text \<open>
  Claim C10: when the store has a record for the URL, \<^verbatim>\<open>saveRepository\<close> replaces
  one record \<open>r\<close> of that URL by \<open>r'\<close>, which differs from it in \<open>lastUsed\<close> only (the
  name passed is not used); all other records are kept, up to order, and the history is
  untouched. \<^verbatim>\<open>saveChangelogGeneration\<close> leaves the same repository list.
\<close>

theorem saveRepository_frame:
  assumes "\<exists>r\<in>set (repositories d). url r = u"
  shows "\<exists>r r'. r \<in> set (repositories d) \<and> url r = u \<and>
           url r' = url r \<and> repository.name r' = repository.name r \<and> lastUsed r' = t \<and>
           mset (repositories (saveRepository u n t d)) =
             add_mset r' (mset (repositories d) - {#r#}) \<and>
           history (saveRepository u n t d) = history d \<and>
           repositories (saveChangelogGeneration u n sd ed h t t2 d) =
             repositories (saveRepository u n t d)"
proof -
  let ?rs = "repositories d"
  let ?k = "nat (findIndex (\<lambda>repo. repository.url repo = u) ?rs)"
  from assms have found: "findIndex (\<lambda>repo. repository.url repo = u) ?rs \<noteq> - 1"
    by (simp add: findIndex_none)
  from findIndex_first [OF found] have k: "?k < length ?rs" and u: "url (?rs ! ?k) = u"
    by auto
  let ?r = "?rs ! ?k"
  let ?r' = "?r\<lparr>lastUsed := t\<rparr>"
  from found have "repositories (saveRepository u n t d) =
      sort_newest_first lastUsed (?rs[?k := ?r'])"
    by (simp add: saveRepository_repositories)
  then have "mset (repositories (saveRepository u n t d)) = mset (?rs[?k := ?r'])"
    by (simp add: mset_sort_newest_first)
  also have "\<dots> = add_mset ?r' (mset ?rs - {#?r#})"
    using k by (rule mset_update)
  finally have m: "mset (repositories (saveRepository u n t d)) =
      add_mset ?r' (mset ?rs - {#?r#})" .
  have h: "history (saveRepository u n t d) = history d"
    by (simp add: saveRepository_def Let_def)
  have "?r \<in> set ?rs" using k by simp
  with u m h show ?thesis
    by (intro exI [of _ ?r] exI [of _ ?r'])
       (simp add: repositories_saveChangelogGeneration)
qed

theorem saveRepository_frame_witness:
  "(\<exists>r\<in>set (repositories example_db). url r = ''a'') \<and>
   repositories (saveRepository ''a'' ''OTHER'' 30 example_db) =
     [\<lparr>url = ''a'', repository.name = ''A'', lastUsed = 30\<rparr>,
      \<lparr>url = ''b'', repository.name = ''B'', lastUsed = 20\<rparr>] \<and>
   (\<exists>r r'. r \<in> set (repositories example_db) \<and> url r = ''a'' \<and>
      url r' = url r \<and> repository.name r' = repository.name r \<and> lastUsed r' = 30 \<and>
      mset (repositories (saveRepository ''a'' ''OTHER'' 30 example_db)) =
        add_mset r' (mset (repositories example_db) - {#r#}) \<and>
      history (saveRepository ''a'' ''OTHER'' 30 example_db) = history example_db \<and>
      repositories (saveChangelogGeneration ''a'' ''OTHER'' ''2024-02-01'' ''2024-02-08''
                      (Some ''def5678'') 30 31 example_db) =
        repositories (saveRepository ''a'' ''OTHER'' 30 example_db))"
proof -
  have h: "\<exists>r\<in>set (repositories example_db). url r = ''a''" by (simp add: example_db_def)
  have ev: "repositories (saveRepository ''a'' ''OTHER'' 30 example_db) =
     [\<lparr>url = ''a'', repository.name = ''A'', lastUsed = 30\<rparr>,
      \<lparr>url = ''b'', repository.name = ''B'', lastUsed = 20\<rparr>]"
    by (simp add: example_db_def saveRepository_def sort_newest_first_def Let_def)
  from h ev saveRepository_frame [OF h, of 30 "''OTHER''" "''2024-02-01''" "''2024-02-08''"
      "Some ''def5678''" 31]
  show ?thesis by blast
qed

text \<open>
  Claim C7: \<^verbatim>\<open>getDaysSinceLastChangelog\<close> returns \<^verbatim>\<open>null\<close> exactly when the
  history has no entry for the URL; otherwise its result is read from an entry of the URL
  whose \<open>generatedAt\<close> is maximal among them, and \<open>days\<close> is the least integer \<open>n\<close>
  with \<open>now - generatedAt \<le> n\<close> days of 86400000 milliseconds.
\<close>

theorem getDaysSinceLastChangelog_latest:
  "(getDaysSinceLastChangelog now d u = None \<longleftrightarrow> (\<forall>e\<in>set (history d). repoUrl e \<noteq> u)) \<and>
   (\<forall>info. getDaysSinceLastChangelog now d u = Some info \<longrightarrow>
      (\<exists>e\<in>set (history d). repoUrl e = u \<and>
         (\<forall>e'\<in>set (history d). repoUrl e' = u \<longrightarrow> generatedAt e' \<le> generatedAt e) \<and>
         (days info - 1) * 86400000 < now - generatedAt e \<and>
         now - generatedAt e \<le> days info * 86400000 \<and>
         lastDate info = endDate e \<and>
         last_changelog.lastCommitHash info = history_entry.lastCommitHash e))"
proof (intro conjI allI impI)
  let ?es = "filter (\<lambda>entry. repoUrl entry = u) (history d)"
  have "getDaysSinceLastChangelog now d u = None \<longleftrightarrow> sort_newest_first generatedAt ?es = []"
    by (simp add: getDaysSinceLastChangelog_def split: list.splits)
  also have "\<dots> \<longleftrightarrow> ?es = []"
    using set_sort_newest_first [of generatedAt ?es] by (metis set_empty)
  also have "\<dots> \<longleftrightarrow> (\<forall>e\<in>set (history d). repoUrl e \<noteq> u)"
    by (simp add: filter_empty_conv)
  finally show "getDaysSinceLastChangelog now d u = None \<longleftrightarrow>
      (\<forall>e\<in>set (history d). repoUrl e \<noteq> u)" .
next
  fix info
  let ?es = "filter (\<lambda>entry. repoUrl entry = u) (history d)"
  assume a: "getDaysSinceLastChangelog now d u = Some info"
  then obtain e rest where s: "sort_newest_first generatedAt ?es = e # rest"
    and i: "info = \<lparr>days = days_since now (generatedAt e), lastDate = endDate e,
        last_changelog.lastCommitHash = history_entry.lastCommitHash e\<rparr>"
    by (auto simp: getDaysSinceLastChangelog_def split: list.splits)
  from sort_newest_first_head [OF s]
  have e: "e \<in> set ?es" and mx: "\<forall>x\<in>set ?es. generatedAt x \<le> generatedAt e" by blast+
  from e have 1: "e \<in> set (history d)" and 2: "repoUrl e = u" by auto
  from mx have 3: "\<forall>e'\<in>set (history d). repoUrl e' = u \<longrightarrow> generatedAt e' \<le> generatedAt e"
    by auto
  from i days_since_bounds [of now "generatedAt e"]
  have 4: "(days info - 1) * 86400000 < now - generatedAt e \<and>
      now - generatedAt e \<le> days info * 86400000"
    by simp
  from i have 5: "lastDate info = endDate e \<and>
      last_changelog.lastCommitHash info = history_entry.lastCommitHash e"
    by simp
  from 1 2 3 4 5 show "\<exists>e\<in>set (history d). repoUrl e = u \<and>
         (\<forall>e'\<in>set (history d). repoUrl e' = u \<longrightarrow> generatedAt e' \<le> generatedAt e) \<and>
         (days info - 1) * 86400000 < now - generatedAt e \<and>
         now - generatedAt e \<le> days info * 86400000 \<and>
         lastDate info = endDate e \<and>
         last_changelog.lastCommitHash info = history_entry.lastCommitHash e"
    by blast
qed

lemma example_latest:
  "getDaysSinceLastChangelog 86405001 example_db ''a'' =
     Some \<lparr>days = 2, lastDate = ''2024-01-08'', last_changelog.lastCommitHash = Some ''abc1234''\<rparr>"
  by (simp add: example_db_def getDaysSinceLastChangelog_def sort_newest_first_def
      days_since_eq_div)

theorem getDaysSinceLastChangelog_latest_witness:
  "getDaysSinceLastChangelog 86405001 example_db ''c'' = None \<and>
   getDaysSinceLastChangelog 86405001 example_db ''a'' =
     Some \<lparr>days = 2, lastDate = ''2024-01-08'', last_changelog.lastCommitHash = Some ''abc1234''\<rparr> \<and>
   (\<exists>e\<in>set (history example_db). repoUrl e = ''a'' \<and>
      (\<forall>e'\<in>set (history example_db). repoUrl e' = ''a'' \<longrightarrow> generatedAt e' \<le> generatedAt e) \<and>
      86400000 < 86405001 - generatedAt e \<and> 86405001 - generatedAt e \<le> 2 * 86400000 \<and>
      endDate e = ''2024-01-08'' \<and> history_entry.lastCommitHash e = Some ''abc1234'')"
proof -
  note t = getDaysSinceLastChangelog_latest
  have "\<forall>e\<in>set (history example_db). repoUrl e \<noteq> ''c''" by (simp add: example_db_def)
  with t [of 86405001 example_db "''c''"]
  have 1: "getDaysSinceLastChangelog 86405001 example_db ''c'' = None" by blast
  from t [of 86405001 example_db "''a''"] example_latest
  have "\<exists>e\<in>set (history example_db). repoUrl e = ''a'' \<and>
      (\<forall>e'\<in>set (history example_db). repoUrl e' = ''a'' \<longrightarrow> generatedAt e' \<le> generatedAt e) \<and>
      (days \<lparr>days = 2, lastDate = ''2024-01-08'',
              last_changelog.lastCommitHash = Some ''abc1234''\<rparr> - 1) * 86400000
        < 86405001 - generatedAt e \<and>
      86405001 - generatedAt e
        \<le> days \<lparr>days = 2, lastDate = ''2024-01-08'',
                  last_changelog.lastCommitHash = Some ''abc1234''\<rparr> * 86400000 \<and>
      lastDate \<lparr>days = 2, lastDate = ''2024-01-08'',
                last_changelog.lastCommitHash = Some ''abc1234''\<rparr> = endDate e \<and>
      last_changelog.lastCommitHash \<lparr>days = 2, lastDate = ''2024-01-08'',
                last_changelog.lastCommitHash = Some ''abc1234''\<rparr> =
        history_entry.lastCommitHash e"
    by blast
  then have 2: "\<exists>e\<in>set (history example_db). repoUrl e = ''a'' \<and>
      (\<forall>e'\<in>set (history example_db). repoUrl e' = ''a'' \<longrightarrow> generatedAt e' \<le> generatedAt e) \<and>
      86400000 < 86405001 - generatedAt e \<and> 86405001 - generatedAt e \<le> 2 * 86400000 \<and>
      endDate e = ''2024-01-08'' \<and> history_entry.lastCommitHash e = Some ''abc1234''"
    by (simp add: eq_commute)
  from 1 example_latest 2 show ?thesis by blast
qed

section \<open>Properties of \<^verbatim>\<open>getNewCommitsSinceLastChangelog\<close>\<close>

lemma unknown_without_hash:
  assumes "recorded_hash now d u = None"
  shows "getNewCommitsSinceLastChangelog now d u response = no_previous_hash"
  using assms
  by (auto simp: recorded_hash_def getNewCommitsSinceLastChangelog_def
      split: option.splits if_splits)

lemma with_hash:
  assumes "recorded_hash now d u = Some h"
  shows "getNewCommitsSinceLastChangelog now d u (Inr commits) =
     (if length commits = 0
      then \<lparr>newCommits = Some 0, new_commits.lastCommitHash = Some h,
            new_commits.message = ''No commits found''\<rparr>
      else
        (let lastCommitIndex = findIndex (\<lambda>c. startsWith (sha c) h) commits
         in if lastCommitIndex = - 1
            then \<lparr>newCommits = Some (int (length commits)),
                  new_commits.lastCommitHash = Some (sha (hd commits)),
                  new_commits.message = ''Previous commit not found in recent history''\<rparr>
            else \<lparr>newCommits = Some lastCommitIndex,
                  new_commits.lastCommitHash = Some (sha (hd commits)),
                  new_commits.message =
                    ''Found '' @ decimal (nat lastCommitIndex) @
                    '' new commits since last changelog''\<rparr>))"
  using assms
  by (auto simp: recorded_hash_def getNewCommitsSinceLastChangelog_def
      split: option.splits if_splits)

text \<open>
  Claim C9, as the code has it. Without a recorded hash the count is unknown
  (\<^verbatim>\<open>null\<close>). With a recorded hash and a fetched page: if some commit's hash starts
  with it, the count is the index of the first such commit; if none does, the count is
  the length of the page, and the message flags the missing commit when the page is not
  empty, while an empty page is answered with \<^verbatim>\<open>No commits found\<close>.
\<close>

theorem new_commits_count:
  "(recorded_hash now d u = None \<longrightarrow>
      newCommits (getNewCommitsSinceLastChangelog now d u response) = None) \<and>
   (recorded_hash now d u = Some h \<and> (\<exists>c\<in>set commits. startsWith (sha c) h) \<longrightarrow>
      (\<exists>i<length commits.
         newCommits (getNewCommitsSinceLastChangelog now d u (Inr commits)) = Some (int i) \<and>
         startsWith (sha (commits ! i)) h \<and>
         (\<forall>j<i. \<not> startsWith (sha (commits ! j)) h))) \<and>
   (recorded_hash now d u = Some h \<and> (\<forall>c\<in>set commits. \<not> startsWith (sha c) h) \<longrightarrow>
      newCommits (getNewCommitsSinceLastChangelog now d u (Inr commits)) =
        Some (int (length commits)) \<and>
      new_commits.message (getNewCommitsSinceLastChangelog now d u (Inr commits)) =
        (if commits = [] then ''No commits found''
         else ''Previous commit not found in recent history''))"
proof -
  let ?p = "\<lambda>c. startsWith (sha c) h"
  have 1: "newCommits (getNewCommitsSinceLastChangelog now d u response) = None"
    if "recorded_hash now d u = None"
    using that by (simp add: unknown_without_hash no_previous_hash_def)
  have 2: "\<exists>i<length commits.
         newCommits (getNewCommitsSinceLastChangelog now d u (Inr commits)) = Some (int i) \<and>
         startsWith (sha (commits ! i)) h \<and>
         (\<forall>j<i. \<not> startsWith (sha (commits ! j)) h)"
    if a: "recorded_hash now d u = Some h \<and> (\<exists>c\<in>set commits. startsWith (sha c) h)"
  proof -
    from a have ne: "commits \<noteq> []" by auto
    from a have found: "findIndex ?p commits \<noteq> - 1" by (simp add: findIndex_none)
    from findIndex_nonneg [OF found]
    have nn: "int (nat (findIndex ?p commits)) = findIndex ?p commits" by simp
    from a ne found
    have "newCommits (getNewCommitsSinceLastChangelog now d u (Inr commits)) =
        Some (findIndex ?p commits)"
      by (simp add: with_hash Let_def)
    with nn have "newCommits (getNewCommitsSinceLastChangelog now d u (Inr commits)) =
        Some (int (nat (findIndex ?p commits)))"
      by simp
    with findIndex_first [OF found] show ?thesis by blast
  qed
  have 3: "newCommits (getNewCommitsSinceLastChangelog now d u (Inr commits)) =
        Some (int (length commits)) \<and>
      new_commits.message (getNewCommitsSinceLastChangelog now d u (Inr commits)) =
        (if commits = [] then ''No commits found''
         else ''Previous commit not found in recent history'')"
    if a: "recorded_hash now d u = Some h \<and> (\<forall>c\<in>set commits. \<not> startsWith (sha c) h)"
  proof -
    from a have none: "findIndex ?p commits = - 1" by (simp add: findIndex_none)
    from a none show ?thesis by (simp add: with_hash Let_def)
  qed
  from 1 2 3 show ?thesis by blast
qed

lemma example_recorded: "recorded_hash 86405001 example_db ''a'' = Some ''abc1234''"
  by (simp add: recorded_hash_def example_latest)

theorem new_commits_count_witness:
  "recorded_hash 86405001 example_db ''c'' = None \<and>
   newCommits (getNewCommitsSinceLastChangelog 86405001 example_db ''c''
                 (Inr [commit_of ''fff0000aaa'' ''fix: x'' ''A'' ''2024-01-09T10:00:00Z''])) = None \<and>
   recorded_hash 86405001 example_db ''a'' = Some ''abc1234'' \<and>
   (\<exists>i<length [commit_of ''fff0000aaa'' ''fix: x'' ''A'' ''2024-01-09T10:00:00Z'',
                 commit_of ''abc1234999'' ''feat: y'' ''B'' ''2024-01-08T10:00:00Z''].
      newCommits (getNewCommitsSinceLastChangelog 86405001 example_db ''a''
                    (Inr [commit_of ''fff0000aaa'' ''fix: x'' ''A'' ''2024-01-09T10:00:00Z'',
                          commit_of ''abc1234999'' ''feat: y'' ''B'' ''2024-01-08T10:00:00Z'']))
        = Some (int i) \<and>
      startsWith
        (sha ([commit_of ''fff0000aaa'' ''fix: x'' ''A'' ''2024-01-09T10:00:00Z'',
               commit_of ''abc1234999'' ''feat: y'' ''B'' ''2024-01-08T10:00:00Z''] ! i))
        ''abc1234'' \<and>
      (\<forall>j<i. \<not> startsWith
        (sha ([commit_of ''fff0000aaa'' ''fix: x'' ''A'' ''2024-01-09T10:00:00Z'',
               commit_of ''abc1234999'' ''feat: y'' ''B'' ''2024-01-08T10:00:00Z''] ! j))
        ''abc1234'')) \<and>
   getNewCommitsSinceLastChangelog 86405001 example_db ''a''
     (Inr [commit_of ''fff0000aaa'' ''fix: x'' ''A'' ''2024-01-09T10:00:00Z'',
           commit_of ''abc1234999'' ''feat: y'' ''B'' ''2024-01-08T10:00:00Z'']) =
     \<lparr>newCommits = Some 1, new_commits.lastCommitHash = Some ''fff0000aaa'',
      new_commits.message = ''Found 1 new commits since last changelog''\<rparr> \<and>
   newCommits (getNewCommitsSinceLastChangelog 86405001 example_db ''a''
                 (Inr [commit_of ''fff0000aaa'' ''fix: x'' ''A'' ''2024-01-09T10:00:00Z''])) =
     Some 1 \<and>
   new_commits.message (getNewCommitsSinceLastChangelog 86405001 example_db ''a''
                 (Inr [commit_of ''fff0000aaa'' ''fix: x'' ''A'' ''2024-01-09T10:00:00Z''])) =
     ''Previous commit not found in recent history''"
proof -
  let ?x = "commit_of ''fff0000aaa'' ''fix: x'' ''A'' ''2024-01-09T10:00:00Z''"
  let ?y = "commit_of ''abc1234999'' ''feat: y'' ''B'' ''2024-01-08T10:00:00Z''"
  note t = new_commits_count
  have "getDaysSinceLastChangelog 86405001 example_db ''c'' = None"
    by (simp add: example_db_def getDaysSinceLastChangelog_def sort_newest_first_def)
  then have h1: "recorded_hash 86405001 example_db ''c'' = None"
    by (simp add: recorded_hash_def)
  have h2: "recorded_hash 86405001 example_db ''a'' = Some ''abc1234''"
    by (rule example_recorded)
  have h3: "\<exists>c\<in>set [?x, ?y]. startsWith (sha c) ''abc1234''"
    by (simp add: commit_of_def startsWith_def)
  have h4: "\<forall>c\<in>set [?x]. \<not> startsWith (sha c) ''abc1234''"
    by (simp add: commit_of_def startsWith_def)
  from t [of 86405001 example_db "''c''" "Inr [?x]"] h1
  have c1: "newCommits (getNewCommitsSinceLastChangelog 86405001 example_db ''c'' (Inr [?x])) = None"
    by blast
  from t [of 86405001 example_db "''a''" _ "''abc1234''" "[?x, ?y]"] h2 h3
  have c2: "\<exists>i<length [?x, ?y].
      newCommits (getNewCommitsSinceLastChangelog 86405001 example_db ''a'' (Inr [?x, ?y]))
        = Some (int i) \<and>
      startsWith (sha ([?x, ?y] ! i)) ''abc1234'' \<and>
      (\<forall>j<i. \<not> startsWith (sha ([?x, ?y] ! j)) ''abc1234'')"
    by blast
  from t [of 86405001 example_db "''a''" _ "''abc1234''" "[?x]"] h2 h4
  have c3: "newCommits (getNewCommitsSinceLastChangelog 86405001 example_db ''a'' (Inr [?x])) =
        Some (int (length [?x])) \<and>
      new_commits.message (getNewCommitsSinceLastChangelog 86405001 example_db ''a'' (Inr [?x])) =
        (if [?x] = [] then ''No commits found''
         else ''Previous commit not found in recent history'')"
    by blast
  have ev: "getNewCommitsSinceLastChangelog 86405001 example_db ''a'' (Inr [?x, ?y]) =
     \<lparr>newCommits = Some 1, new_commits.lastCommitHash = Some ''fff0000aaa'',
      new_commits.message = ''Found 1 new commits since last changelog''\<rparr>"
    by (simp add: with_hash [OF h2] commit_of_def startsWith_def decimal.simps)
  from c3 have c3': "newCommits (getNewCommitsSinceLastChangelog 86405001 example_db ''a'' (Inr [?x])) =
        Some 1 \<and>
      new_commits.message (getNewCommitsSinceLastChangelog 86405001 example_db ''a'' (Inr [?x])) =
        ''Previous commit not found in recent history''"
    by simp
  from h1 c1 h2 c2 ev c3' show ?thesis by blast
qed

text \<open>
  Claim C9 as stated fails on an empty page: no commit starts with the recorded hash and
  the count is the length of the page, but the message is not the one that flags the
  missing commit.
\<close>

theorem new_commits_empty_page_counterexample:
  "recorded_hash 86405001 example_db ''a'' = Some ''abc1234'' \<and>
   newCommits (getNewCommitsSinceLastChangelog 86405001 example_db ''a'' (Inr [])) = Some 0 \<and>
   new_commits.message (getNewCommitsSinceLastChangelog 86405001 example_db ''a'' (Inr [])) =
     ''No commits found'' \<and>
   new_commits.message (getNewCommitsSinceLastChangelog 86405001 example_db ''a'' (Inr [])) \<noteq>
     ''Previous commit not found in recent history''"
  by (simp add: with_hash [OF example_recorded] example_recorded)

end
